theory Spec2Isabelle
  imports Main "HOL-Library.Word" "HOL-Library.Product_Lexorder"
begin

unbundle bit_operations_syntax

section \<open>The lock table of \<^verbatim>\<open>atomic.c\<close>\<close>

text \<open>
  Addresses are the values of \<^verbatim>\<open>uintptr_t\<close> on an LP64 target, memory is a map from
  addresses to bytes. The lock table is the static array \<^verbatim>\<open>locks[SPINLOCK_COUNT]\<close>; a
  \<^verbatim>\<open>Lock *\<close> into it is modelled by its index. The lock is the portable one of the
  source (\<^verbatim>\<open>typedef _Atomic(uintptr_t) Lock\<close>): 0 is unlocked, 1 is held.
\<close>

type_synonym addr = "64 word"
type_synonym byte = "8 word"

record state =
  mem :: "addr \<Rightarrow> byte"
  locks :: "nat \<Rightarrow> 64 word"

definition SPINLOCK_COUNT :: nat where
  "SPINLOCK_COUNT = 2 ^ 10"

definition SPINLOCK_MASK :: "64 word" where
  "SPINLOCK_MASK = of_nat SPINLOCK_COUNT - 1"

text \<open>
  \<^verbatim>\<open>lock_for_pointer\<close>: \<^verbatim>\<open>hash\<close> is an \<^verbatim>\<open>intptr_t\<close>, so \<^verbatim>\<open>>>=\<close> is the arithmetic
  shift. The result is the index of the returned slot.
\<close>

definition lock_for_pointer :: "addr \<Rightarrow> nat" where
  "lock_for_pointer ptr =
     (let hash = ptr;
          hash = signed_drop_bit 4 hash;
          low = hash AND SPINLOCK_MASK;
          hash = signed_drop_bit 16 hash;
          hash = hash XOR low
      in unat (hash AND SPINLOCK_MASK))"

text \<open>
  The hash in the words of the specification, on the address as a natural number:
  shift right by 4, keep the low \<open>log2 N\<close> bits, fold in the bits 16 places higher,
  mask into \<open>[0, N)\<close>.
\<close>

definition lock_for_spec :: "nat \<Rightarrow> nat" where
  "lock_for_spec a =
     (((a div 2 ^ 4) mod SPINLOCK_COUNT) XOR ((a div 2 ^ 4) div 2 ^ 16)) mod SPINLOCK_COUNT"


text \<open>
  \<^verbatim>\<open>unlock\<close> stores 0. \<^verbatim>\<open>lock\<close> is the loop
  \<^verbatim>\<open>while (!compare_exchange_weak(l, &old, 1)) old = 0;\<close>: in a run of one thread a
  failed exchange is retried in the same state, so on a held lock the loop never
  returns, which is the value \<open>None\<close>.
\<close>

definition unlock :: "nat \<Rightarrow> state \<Rightarrow> state" where
  "unlock l s = s\<lparr>locks := (locks s)(l := 0)\<rparr>"

partial_function (option) lock :: "nat \<Rightarrow> state \<Rightarrow> state option" where
  "lock l s = (if locks s l = 0 then Some (s\<lparr>locks := (locks s)(l := 1)\<rparr>) else lock l s)"

section \<open>Bytes in memory\<close>

text \<open>
  The \<open>n\<close> addresses of the object at \<open>p\<close>; \<^verbatim>\<open>memcpy\<close> and \<^verbatim>\<open>memcmp\<close> of the C
  library on them. The C standard leaves \<^verbatim>\<open>memcpy\<close> on overlapping objects undefined;
  here it reads the source before it writes. The \<^verbatim>\<open>int size\<close> of the source is written
  \<open>sz\<close>; it reaches the library converted to \<^verbatim>\<open>size_t\<close>.
\<close>

definition addrs :: "addr \<Rightarrow> nat \<Rightarrow> addr list" where
  "addrs p n = map (\<lambda>i. p + of_nat i) [0..<n]"

definition region :: "addr \<Rightarrow> nat \<Rightarrow> addr set" where
  "region p n = set (addrs p n)"

definition read_bytes :: "(addr \<Rightarrow> byte) \<Rightarrow> addr \<Rightarrow> nat \<Rightarrow> byte list" where
  "read_bytes m p n = map m (addrs p n)"

fun write_bytes :: "(addr \<Rightarrow> byte) \<Rightarrow> addr \<Rightarrow> byte list \<Rightarrow> addr \<Rightarrow> byte" where
  "write_bytes m p [] = m"
| "write_bytes m p (b # bs) = write_bytes (m(p := b)) (p + 1) bs"

definition size_t :: "int \<Rightarrow> nat" where
  "size_t n = nat (n mod 2 ^ 64)"

definition memcpy :: "addr \<Rightarrow> addr \<Rightarrow> nat \<Rightarrow> state \<Rightarrow> state" where
  "memcpy dest src n s = s\<lparr>mem := write_bytes (mem s) dest (read_bytes (mem s) src n)\<rparr>"

fun memcmp_bytes :: "byte list \<Rightarrow> byte list \<Rightarrow> int" where
  "memcmp_bytes (a # as) (b # bs) =
     (if a = b then memcmp_bytes as bs else int (unat a) - int (unat b))"
| "memcmp_bytes _ _ = 0"

definition memcmp :: "addr \<Rightarrow> addr \<Rightarrow> nat \<Rightarrow> state \<Rightarrow> int" where
  "memcmp p q n s = memcmp_bytes (read_bytes (mem s) p n) (read_bytes (mem s) q n)"

section \<open>The platform and typed accesses\<close>

text \<open>
  What the build and the target decide: \<open>gnuc\<close> is
  \<^verbatim>\<open>defined(__GNUC__) && !defined(__clang__)\<close>; \<open>is_lock_free n\<close> is the compiler's
  answer to \<^verbatim>\<open>__c11_atomic_is_lock_free(n)\<close> (\<^verbatim>\<open>__atomic_is_lock_free(n, NULL)\<close> under
  GCC); \<open>big_endian\<close> is the byte order of the target; \<open>weak_fails\<close> says whether a weak
  compare-exchange of the target fails although the compared values are equal, which
  the builtin's contract allows.
\<close>

record platform =
  gnuc :: bool
  is_lock_free :: "nat \<Rightarrow> bool"
  big_endian :: bool
  weak_fails :: bool

text \<open>An unsigned integer of \<open>LENGTH('a) div 8\<close> bytes in memory, in the target's order.\<close>

definition le_bytes :: "'a::len word \<Rightarrow> byte list" where
  "le_bytes w = map (\<lambda>i. ucast (drop_bit (8 * i) w)) [0..<LENGTH('a) div 8]"

definition le_word :: "byte list \<Rightarrow> 'a::len word" where
  "le_word bs = word_of_int (horner_sum uint 256 bs)"

definition to_bytes :: "platform \<Rightarrow> 'a::len word \<Rightarrow> byte list" where
  "to_bytes P w = (if big_endian P then rev (le_bytes w) else le_bytes w)"

definition from_bytes :: "platform \<Rightarrow> byte list \<Rightarrow> 'a::len word" where
  "from_bytes P bs = le_word (if big_endian P then rev bs else bs)"

text \<open>\<^verbatim>\<open>*(type *)p\<close> as a value, and the assignment \<^verbatim>\<open>*(type *)p = v\<close>.\<close>

definition deref :: "platform \<Rightarrow> state \<Rightarrow> addr \<Rightarrow> 'a::len word" where
  "deref P s p = from_bytes P (read_bytes (mem s) p (LENGTH('a) div 8))"

definition assign :: "platform \<Rightarrow> addr \<Rightarrow> 'a::len word \<Rightarrow> state \<Rightarrow> state" where
  "assign P p v s = s\<lparr>mem := write_bytes (mem s) p (to_bytes P v)\<rparr>"

section \<open>The compiler's atomic builtins\<close>

text \<open>
  The native operations the fast path forwards to, on one thread. The source calls
  \<^verbatim>\<open>__c11_atomic_load\<close>, \<^verbatim>\<open>__c11_atomic_store\<close>, \<^verbatim>\<open>__c11_atomic_exchange\<close> and
  \<^verbatim>\<open>__c11_atomic_fetch_add\<close> etc. under clang and \<^verbatim>\<open>__atomic_load_n\<close>,
  \<^verbatim>\<open>__atomic_store_n\<close>, \<^verbatim>\<open>__atomic_exchange_n\<close>, \<^verbatim>\<open>__atomic_fetch_add\<close> etc. under GCC;
  the two families do the same, so each pair has one definition. Compare-exchange
  differs: clang's is called as \<^verbatim>\<open>_strong\<close>, GCC's takes a \<^verbatim>\<open>weak\<close> flag.
\<close>

datatype opname = fetch_add | fetch_sub | fetch_and | fetch_or | fetch_xor

fun rmw :: "opname \<Rightarrow> 'a::len word \<Rightarrow> 'a word \<Rightarrow> 'a word" where
  "rmw fetch_add a b = a + b"
| "rmw fetch_sub a b = a - b"
| "rmw fetch_and a b = a AND b"
| "rmw fetch_or a b = a OR b"
| "rmw fetch_xor a b = a XOR b"

definition c11_atomic_load :: "platform \<Rightarrow> addr \<Rightarrow> state \<Rightarrow> 'a::len word" where
  "c11_atomic_load P ptr s = deref P s ptr"

definition c11_atomic_store :: "platform \<Rightarrow> addr \<Rightarrow> 'a::len word \<Rightarrow> state \<Rightarrow> state" where
  "c11_atomic_store P ptr val s = assign P ptr val s"

definition c11_atomic_exchange ::
  "platform \<Rightarrow> addr \<Rightarrow> 'a::len word \<Rightarrow> state \<Rightarrow> 'a word \<times> state" where
  "c11_atomic_exchange P ptr val s = (deref P s ptr, assign P ptr val s)"

definition c11_atomic_fetch ::
  "platform \<Rightarrow> opname \<Rightarrow> addr \<Rightarrow> 'a::len word \<Rightarrow> state \<Rightarrow> 'a word \<times> state" where
  "c11_atomic_fetch P opn ptr val s =
     (deref P s ptr, assign P ptr (rmw opn (deref P s ptr) val) s)"

definition c11_atomic_compare_exchange_strong ::
  "platform \<Rightarrow> addr \<Rightarrow> addr \<Rightarrow> 'a::len word \<Rightarrow> state \<Rightarrow> bool \<times> state" where
  "c11_atomic_compare_exchange_strong P ptr expected desired s =
     (if (deref P s ptr :: 'a word) = deref P s expected
      then (True, assign P ptr desired s)
      else (False, assign P expected (deref P s ptr :: 'a word) s))"

definition builtin_atomic_compare_exchange_n ::
  "platform \<Rightarrow> addr \<Rightarrow> addr \<Rightarrow> 'a::len word \<Rightarrow> bool \<Rightarrow> state \<Rightarrow> bool \<times> state" where
  "builtin_atomic_compare_exchange_n P ptr expected desired weak s =
     (if weak \<and> weak_fails P \<and> (deref P s ptr :: 'a word) = deref P s expected
      then (False, s)
      else c11_atomic_compare_exchange_strong P ptr expected desired s)"

section \<open>Lock-free dispatch\<close>

text \<open>
  \<^verbatim>\<open>IS_LOCK_FREE_1\<close>, \<^verbatim>\<open>_2\<close>, \<^verbatim>\<open>_4\<close>, \<^verbatim>\<open>_8\<close> ask the compiler; \<^verbatim>\<open>IS_LOCK_FREE_16\<close> is the
  constant 0.
\<close>

definition IS_LOCK_FREE :: "platform \<Rightarrow> nat \<Rightarrow> bool" where
  "IS_LOCK_FREE P n = (if n = 16 then False else is_lock_free P n)"

text \<open>
  \<^verbatim>\<open>LOCK_FREE_CASES()\<close>: the type with which the switch runs \<^verbatim>\<open>LOCK_FREE_ACTION\<close>, or
  \<open>None\<close> when control leaves the switch. The action of case 16 is commented out in the
  source.
\<close>

datatype ctype = uint8_t | uint16_t | uint32_t | uint64_t

definition LOCK_FREE_CASES :: "platform \<Rightarrow> int \<Rightarrow> ctype option" where
  "LOCK_FREE_CASES P sz =
     (if sz = 1 then (if IS_LOCK_FREE P 1 then Some uint8_t else None)
      else if sz = 2 then (if IS_LOCK_FREE P 2 then Some uint16_t else None)
      else if sz = 4 then (if IS_LOCK_FREE P 4 then Some uint32_t else None)
      else if sz = 8 then (if IS_LOCK_FREE P 8 then Some uint64_t else None)
      else if sz = 16 then (if IS_LOCK_FREE P 16 then None else None)
      else None)"

section \<open>The generic operations\<close>

text \<open>\<^verbatim>\<open>__atomic_load_c\<close> and its \<^verbatim>\<open>LOCK_FREE_ACTION(type)\<close>.\<close>

definition load_action ::
  "'a::len itself \<Rightarrow> platform \<Rightarrow> addr \<Rightarrow> addr \<Rightarrow> state \<Rightarrow> state" where
  "load_action T P src dest s = assign P dest (c11_atomic_load P src s :: 'a word) s"

fun load_LOCK_FREE_ACTION :: "ctype \<Rightarrow> platform \<Rightarrow> addr \<Rightarrow> addr \<Rightarrow> state \<Rightarrow> state" where
  "load_LOCK_FREE_ACTION uint8_t = load_action TYPE(8)"
| "load_LOCK_FREE_ACTION uint16_t = load_action TYPE(16)"
| "load_LOCK_FREE_ACTION uint32_t = load_action TYPE(32)"
| "load_LOCK_FREE_ACTION uint64_t = load_action TYPE(64)"

definition atomic_load_c ::
  "platform \<Rightarrow> int \<Rightarrow> addr \<Rightarrow> addr \<Rightarrow> int \<Rightarrow> state \<Rightarrow> state option" where
  "atomic_load_c P sz src dest model s =
     (case LOCK_FREE_CASES P sz of
        Some ty \<Rightarrow> Some (load_LOCK_FREE_ACTION ty P src dest s)
      | None \<Rightarrow>
          (let l = lock_for_pointer src in
           case lock l s of
             None \<Rightarrow> None
           | Some s \<Rightarrow> Some (unlock l (memcpy dest src (size_t sz) s))))"

text \<open>\<^verbatim>\<open>__atomic_store_c\<close>.\<close>

definition store_action ::
  "'a::len itself \<Rightarrow> platform \<Rightarrow> addr \<Rightarrow> addr \<Rightarrow> state \<Rightarrow> state" where
  "store_action T P dest src s = c11_atomic_store P dest (deref P s src :: 'a word) s"

fun store_LOCK_FREE_ACTION :: "ctype \<Rightarrow> platform \<Rightarrow> addr \<Rightarrow> addr \<Rightarrow> state \<Rightarrow> state" where
  "store_LOCK_FREE_ACTION uint8_t = store_action TYPE(8)"
| "store_LOCK_FREE_ACTION uint16_t = store_action TYPE(16)"
| "store_LOCK_FREE_ACTION uint32_t = store_action TYPE(32)"
| "store_LOCK_FREE_ACTION uint64_t = store_action TYPE(64)"

definition atomic_store_c ::
  "platform \<Rightarrow> int \<Rightarrow> addr \<Rightarrow> addr \<Rightarrow> int \<Rightarrow> state \<Rightarrow> state option" where
  "atomic_store_c P sz dest src model s =
     (case LOCK_FREE_CASES P sz of
        Some ty \<Rightarrow> Some (store_LOCK_FREE_ACTION ty P dest src s)
      | None \<Rightarrow>
          (let l = lock_for_pointer dest in
           case lock l s of
             None \<Rightarrow> None
           | Some s \<Rightarrow> Some (unlock l (memcpy dest src (size_t sz) s))))"

text \<open>
  \<^verbatim>\<open>__atomic_compare_exchange_c\<close>; it returns an \<^verbatim>\<open>int\<close>. Under GCC the action passes
  \<^verbatim>\<open>true\<close> for the builtin's \<^verbatim>\<open>weak\<close> parameter.
\<close>

definition compare_exchange_action ::
  "'a::len itself \<Rightarrow> platform \<Rightarrow> addr \<Rightarrow> addr \<Rightarrow> addr \<Rightarrow> state \<Rightarrow> int \<times> state" where
  "compare_exchange_action T P ptr expected desired s =
     (let (r, s) =
        (if gnuc P
         then builtin_atomic_compare_exchange_n P ptr expected (deref P s desired :: 'a word) True s
         else c11_atomic_compare_exchange_strong P ptr expected (deref P s desired :: 'a word) s)
      in (if r then 1 else 0, s))"

fun compare_exchange_LOCK_FREE_ACTION ::
  "ctype \<Rightarrow> platform \<Rightarrow> addr \<Rightarrow> addr \<Rightarrow> addr \<Rightarrow> state \<Rightarrow> int \<times> state" where
  "compare_exchange_LOCK_FREE_ACTION uint8_t = compare_exchange_action TYPE(8)"
| "compare_exchange_LOCK_FREE_ACTION uint16_t = compare_exchange_action TYPE(16)"
| "compare_exchange_LOCK_FREE_ACTION uint32_t = compare_exchange_action TYPE(32)"
| "compare_exchange_LOCK_FREE_ACTION uint64_t = compare_exchange_action TYPE(64)"

definition atomic_compare_exchange_c ::
  "platform \<Rightarrow> int \<Rightarrow> addr \<Rightarrow> addr \<Rightarrow> addr \<Rightarrow> int \<Rightarrow> int \<Rightarrow> state \<Rightarrow> (int \<times> state) option" where
  "atomic_compare_exchange_c P sz ptr expected desired success failure s =
     (case LOCK_FREE_CASES P sz of
        Some ty \<Rightarrow> Some (compare_exchange_LOCK_FREE_ACTION ty P ptr expected desired s)
      | None \<Rightarrow>
          (let l = lock_for_pointer ptr in
           case lock l s of
             None \<Rightarrow> None
           | Some s \<Rightarrow>
               if memcmp ptr expected (size_t sz) s = 0
               then Some (1, unlock l (memcpy ptr desired (size_t sz) s))
               else Some (0, unlock l (memcpy expected ptr (size_t sz) s))))"

text \<open>\<^verbatim>\<open>__atomic_exchange_c\<close>.\<close>

definition exchange_action ::
  "'a::len itself \<Rightarrow> platform \<Rightarrow> addr \<Rightarrow> addr \<Rightarrow> addr \<Rightarrow> state \<Rightarrow> state" where
  "exchange_action T P ptr val old s =
     (let (r, s) = c11_atomic_exchange P ptr (deref P s val :: 'a word) s
      in assign P old r s)"

fun exchange_LOCK_FREE_ACTION ::
  "ctype \<Rightarrow> platform \<Rightarrow> addr \<Rightarrow> addr \<Rightarrow> addr \<Rightarrow> state \<Rightarrow> state" where
  "exchange_LOCK_FREE_ACTION uint8_t = exchange_action TYPE(8)"
| "exchange_LOCK_FREE_ACTION uint16_t = exchange_action TYPE(16)"
| "exchange_LOCK_FREE_ACTION uint32_t = exchange_action TYPE(32)"
| "exchange_LOCK_FREE_ACTION uint64_t = exchange_action TYPE(64)"

definition atomic_exchange_c ::
  "platform \<Rightarrow> int \<Rightarrow> addr \<Rightarrow> addr \<Rightarrow> addr \<Rightarrow> int \<Rightarrow> state \<Rightarrow> state option" where
  "atomic_exchange_c P sz ptr val old model s =
     (case LOCK_FREE_CASES P sz of
        Some ty \<Rightarrow> Some (exchange_LOCK_FREE_ACTION ty P ptr val old s)
      | None \<Rightarrow>
          (let l = lock_for_pointer ptr in
           case lock l s of
             None \<Rightarrow> None
           | Some s \<Rightarrow>
               (let s = memcpy old ptr (size_t sz) s;
                    s = memcpy ptr val (size_t sz) s
                in Some (unlock l s))))"

section \<open>The sized operations\<close>

text \<open>
  \<^verbatim>\<open>OPTIMISED_CASE(n, lockfree, type)\<close> is instantiated by \<^verbatim>\<open>OPTIMISED_CASES\<close> at
  \<open>(1, IS_LOCK_FREE_1, uint8_t)\<close>, \<open>(2, IS_LOCK_FREE_2, uint16_t)\<close>,
  \<open>(4, IS_LOCK_FREE_4, uint32_t)\<close>, \<open>(8, IS_LOCK_FREE_8, uint64_t)\<close> and, where the
  compiler has \<^verbatim>\<open>__int128\<close>, \<open>(16, IS_LOCK_FREE_16, __uint128_t)\<close>. The type is the word
  type \<open>'a\<close>, \<open>n\<close> is its size \<open>LENGTH('a) div 8\<close>, and \<^verbatim>\<open>lockfree\<close> is \<open>IS_LOCK_FREE\<close> at
  that size.
\<close>

definition atomic_load_N ::
  "platform \<Rightarrow> addr \<Rightarrow> int \<Rightarrow> state \<Rightarrow> ('a::len word \<times> state) option" where
  "atomic_load_N P src model s =
     (if IS_LOCK_FREE P (LENGTH('a) div 8) then Some (c11_atomic_load P src s, s)
      else
        (let l = lock_for_pointer src in
         case lock l s of
           None \<Rightarrow> None
         | Some s \<Rightarrow>
             (let val = deref P s src;
                  s = unlock l s
              in Some (val, s))))"

definition atomic_store_N ::
  "platform \<Rightarrow> addr \<Rightarrow> 'a::len word \<Rightarrow> int \<Rightarrow> state \<Rightarrow> state option" where
  "atomic_store_N P dest val model s =
     (if IS_LOCK_FREE P (LENGTH('a) div 8) then Some (c11_atomic_store P dest val s)
      else
        (let l = lock_for_pointer dest in
         case lock l s of
           None \<Rightarrow> None
         | Some s \<Rightarrow> Some (unlock l (assign P dest val s))))"

definition atomic_exchange_N ::
  "platform \<Rightarrow> addr \<Rightarrow> 'a::len word \<Rightarrow> int \<Rightarrow> state \<Rightarrow> ('a word \<times> state) option" where
  "atomic_exchange_N P dest val model s =
     (if IS_LOCK_FREE P (LENGTH('a) div 8) then Some (c11_atomic_exchange P dest val s)
      else
        (let l = lock_for_pointer dest in
         case lock l s of
           None \<Rightarrow> None
         | Some s \<Rightarrow>
             (let tmp = deref P s dest;
                  s = assign P dest val s;
                  s = unlock l s
              in Some (tmp, s))))"

definition atomic_compare_exchange_N ::
  "platform \<Rightarrow> addr \<Rightarrow> addr \<Rightarrow> 'a::len word \<Rightarrow> int \<Rightarrow> int \<Rightarrow> state \<Rightarrow> (bool \<times> state) option" where
  "atomic_compare_exchange_N P ptr expected desired success failure s =
     (if IS_LOCK_FREE P (LENGTH('a) div 8)
      then Some (if gnuc P
                 then builtin_atomic_compare_exchange_n P ptr expected desired True s
                 else c11_atomic_compare_exchange_strong P ptr expected desired s)
      else
        (let l = lock_for_pointer ptr in
         case lock l s of
           None \<Rightarrow> None
         | Some s \<Rightarrow>
             if (deref P s ptr :: 'a word) = deref P s expected
             then Some (True, unlock l (assign P ptr desired s))
             else Some (False, unlock l (assign P expected (deref P s ptr :: 'a word) s))))"

text \<open>\<^verbatim>\<open>ATOMIC_RMW(n, lockfree, type, opname, op)\<close>.\<close>

definition atomic_fetch_N ::
  "platform \<Rightarrow> opname \<Rightarrow> addr \<Rightarrow> 'a::len word \<Rightarrow> int \<Rightarrow> state \<Rightarrow> ('a word \<times> state) option" where
  "atomic_fetch_N P opn ptr val model s =
     (if IS_LOCK_FREE P (LENGTH('a) div 8) then Some (c11_atomic_fetch P opn ptr val s)
      else
        (let l = lock_for_pointer ptr in
         case lock l s of
           None \<Rightarrow> None
         | Some s \<Rightarrow>
             (let tmp = deref P s ptr;
                  s = assign P ptr (rmw opn tmp val) s;
                  s = unlock l s
              in Some (tmp, s))))"

section \<open>The read-modify-write of the specification\<close>

text \<open>
  \<open>old op operand\<close> on unsigned integers of \<open>n\<close> bytes, with the wrap-around modulo
  \<open>2 ^ (8 * n)\<close> written out; the sized entry points are compared with it.
\<close>

definition unsigned_op :: "opname \<Rightarrow> nat \<Rightarrow> nat \<Rightarrow> nat \<Rightarrow> nat" where
  "unsigned_op opn n a b =
     (case opn of
        fetch_add \<Rightarrow> (a + b) mod 2 ^ (8 * n)
      | fetch_sub \<Rightarrow> nat ((int a - int b) mod 2 ^ (8 * n))
      | fetch_and \<Rightarrow> (a AND b) mod 2 ^ (8 * n)
      | fetch_or \<Rightarrow> (a OR b) mod 2 ^ (8 * n)
      | fetch_xor \<Rightarrow> (a XOR b) mod 2 ^ (8 * n))"

text \<open>
  Modelled from the spec: the generic fetch-and-op of the specification's public surface,
  \<^verbatim>\<open>fetch_add|sub|and|or|xor(size, ptr, operand, order) -> old_value\<close>. The source
  defines no such function, only the sized ones; this one follows the specification's
  sections on dispatch and on the slow-path operations. Sizes 1, 2, 4, 8 that
  are lock-free go to the native operation, every other call takes the lock of the
  address; either way the \<open>sz\<close> bytes are read as an unsigned integer in the target's
  byte order, \<open>old op operand\<close> is computed with wrap-around, written back, and the
  prior value is returned.
\<close>

definition unsigned :: "platform \<Rightarrow> byte list \<Rightarrow> nat" where
  "unsigned P bs = nat (horner_sum uint 256 (if big_endian P then rev bs else bs))"

definition unsigned_bytes :: "platform \<Rightarrow> nat \<Rightarrow> nat \<Rightarrow> byte list" where
  "unsigned_bytes P n v =
     (let le = map (\<lambda>i. of_nat (v div 256 ^ i mod 256)) [0..<n]
      in if big_endian P then rev le else le)"

definition spec_fetch_op ::
  "platform \<Rightarrow> opname \<Rightarrow> nat \<Rightarrow> addr \<Rightarrow> nat \<Rightarrow> state \<Rightarrow> (nat \<times> state) option" where
  "spec_fetch_op P opn sz ptr operand s =
     (let fetch_op = (\<lambda>s.
            let old = unsigned P (read_bytes (mem s) ptr sz);
                new = unsigned_op opn sz old operand
            in (old, s\<lparr>mem := write_bytes (mem s) ptr (unsigned_bytes P sz new)\<rparr>))
      in if sz \<in> {1, 2, 4, 8} \<and> is_lock_free P sz then Some (fetch_op s)
         else
           (let l = lock_for_pointer ptr in
            case lock l s of
              None \<Rightarrow> None
            | Some s \<Rightarrow> (let (old, s) = fetch_op s in Some (old, unlock l s))))"

section \<open>Concrete platforms and states\<close>

text \<open>
  Inputs at which the theorems below are instantiated: a little-endian clang build with
  native atomics up to 16 bytes, a big-endian GCC build with native atomics up to 4 bytes
  whose weak compare-exchange may fail, a build with no lock-free size at all; a memory
  of zeroes, one where every byte holds the low bits of its address, and one of bytes
  \<open>0xFF\<close>, each with every lock released; and a memory of zeroes with every lock held.
\<close>

definition clang_le :: platform where
  "clang_le = \<lparr>gnuc = False, is_lock_free = (\<lambda>n. n \<le> 16), big_endian = False, weak_fails = False\<rparr>"

definition gcc_ppc :: platform where
  "gcc_ppc = \<lparr>gnuc = True, is_lock_free = (\<lambda>n. n \<le> 4), big_endian = True, weak_fails = True\<rparr>"

definition locked_only :: platform where
  "locked_only = \<lparr>gnuc = False, is_lock_free = (\<lambda>n. False), big_endian = True, weak_fails = False\<rparr>"

definition zeroed :: state where
  "zeroed = \<lparr>mem = (\<lambda>a. 0), locks = (\<lambda>l. 0)\<rparr>"

definition counting :: state where
  "counting = \<lparr>mem = (\<lambda>a. ucast a), locks = (\<lambda>l. 0)\<rparr>"

definition all_ones :: state where
  "all_ones = \<lparr>mem = (\<lambda>a. 255), locks = (\<lambda>l. 0)\<rparr>"

definition contended :: state where
  "contended = \<lparr>mem = (\<lambda>a. 0), locks = (\<lambda>l. 1)\<rparr>"

section \<open>The OS version check\<close>

text \<open>
  \<^verbatim>\<open>os_version_check.c\<close>: the three globals and the once-flag. \<^verbatim>\<open>parseSystemVersionPList\<close>
  talks to the loader, the file system and CoreFoundation; what it does to the globals is
  decided by the values its final \<^verbatim>\<open>sscanf("%d.%d.%d")\<close> converts, here \<open>scanned\<close>:
  every early \<^verbatim>\<open>return\<close> and every \<^verbatim>\<open>goto Fail\<close> leaves the globals alone (no value),
  and \<^verbatim>\<open>sscanf\<close> assigns as many of them as it converts, in order. \<open>has_dispatch\<close> is
  \<^verbatim>\<open>__ENVIRONMENT_MAC_OS_X_VERSION_MIN_REQUIRED__ >= 1060\<close>.
\<close>

record os_version =
  GlobalMajor :: "32 word"
  GlobalMinor :: "32 word"
  GlobalSubminor :: "32 word"
  DispatchOnceCounter :: bool

definition parseSystemVersionPList :: "32 word list \<Rightarrow> os_version \<Rightarrow> os_version" where
  "parseSystemVersionPList scanned g =
     (case scanned of
        [] \<Rightarrow> g
      | [a] \<Rightarrow> g\<lparr>GlobalMajor := a\<rparr>
      | [a, b] \<Rightarrow> g\<lparr>GlobalMajor := a, GlobalMinor := b\<rparr>
      | a # b # c # _ \<Rightarrow> g\<lparr>GlobalMajor := a, GlobalMinor := b, GlobalSubminor := c\<rparr>)"

definition dispatch_once_f :: "(os_version \<Rightarrow> os_version) \<Rightarrow> os_version \<Rightarrow> os_version" where
  "dispatch_once_f f g = (if DispatchOnceCounter g then g else (f g)\<lparr>DispatchOnceCounter := True\<rparr>)"

definition isOSVersionAtLeast ::
  "bool \<Rightarrow> 32 word list \<Rightarrow> 32 word \<Rightarrow> 32 word \<Rightarrow> 32 word \<Rightarrow> os_version
     \<Rightarrow> 32 word \<times> os_version" where
  "isOSVersionAtLeast has_dispatch scanned Major Minor Subminor g =
     (let g = (if has_dispatch then dispatch_once_f (parseSystemVersionPList scanned) g
               else if GlobalMajor g = 0 then parseSystemVersionPList scanned g
               else g)
      in (if Major <s GlobalMajor g then 1
          else if GlobalMajor g <s Major then 0
          else if Minor <s GlobalMinor g then 1
          else if GlobalMinor g <s Minor then 0
          else if Subminor \<le>s GlobalSubminor g then 1 else 0,
          g))"

section \<open>Threads\<close>

text \<open>
  Several threads inside \<^verbatim>\<open>__atomic_fetch_op_n\<close> on one address. A thread is its program
  counter in \<^verbatim>\<open>ATOMIC_RMW\<close>, its local \<^verbatim>\<open>tmp\<close> and the number of calls it has still to
  make; memory and the lock table are shared. One step is one statement of the source:
  the \<^verbatim>\<open>lockfree\<close> test (with the native operation when it holds), one iteration of the
  loop of \<^verbatim>\<open>lock\<close>, \<^verbatim>\<open>tmp = *ptr\<close>, \<^verbatim>\<open>*ptr = tmp op val\<close>, and \<^verbatim>\<open>unlock\<close> with the
  return. A schedule is the list of the threads that step, in order: the interleaving.
  Memory is sequentially consistent.
\<close>

datatype pc = at_call | at_lock | at_load | at_store | at_unlock | finished

record 'v thread =
  pc :: pc
  tmp :: 'v
  todo :: nat

definition next_call :: "nat \<Rightarrow> pc" where
  "next_call k = (if k = 0 then finished else at_call)"

definition start :: "nat \<Rightarrow> 'a::len word thread" where
  "start M = \<lparr>pc = next_call M, tmp = 0, todo = M\<rparr>"

definition thread_step ::
  "platform \<Rightarrow> opname \<Rightarrow> addr \<Rightarrow> 'a::len word \<Rightarrow> 'a word thread \<times> state \<Rightarrow> 'a word thread \<times> state" where
  "thread_step P opn ptr val c =
     (let (t, s) = c; l = lock_for_pointer ptr in
      case pc t of
        at_call \<Rightarrow>
          if IS_LOCK_FREE P (LENGTH('a) div 8)
          then (let (r, s) = c11_atomic_fetch P opn ptr val s
                in (t\<lparr>pc := next_call (todo t - 1), tmp := r, todo := todo t - 1\<rparr>, s))
          else (t\<lparr>pc := at_lock\<rparr>, s)
      | at_lock \<Rightarrow>
          if locks s l = 0 then (t\<lparr>pc := at_load\<rparr>, s\<lparr>locks := (locks s)(l := 1)\<rparr>)
          else (t, s)
      | at_load \<Rightarrow> (t\<lparr>pc := at_store, tmp := deref P s ptr\<rparr>, s)
      | at_store \<Rightarrow> (t\<lparr>pc := at_unlock\<rparr>, assign P ptr (rmw opn (tmp t) val) s)
      | at_unlock \<Rightarrow> (t\<lparr>pc := next_call (todo t - 1), todo := todo t - 1\<rparr>, unlock l s)
      | finished \<Rightarrow> (t, s))"

fun run_threads ::
  "platform \<Rightarrow> opname \<Rightarrow> addr \<Rightarrow> 'a::len word \<Rightarrow> nat list \<Rightarrow> 'a word thread list \<times> state
     \<Rightarrow> 'a word thread list \<times> state" where
  "run_threads P opn ptr val [] c = c"
| "run_threads P opn ptr val (i # sched) c =
     (let (ts, s) = c in
      if i < length ts
      then (let (t, s) = thread_step P opn ptr val (ts ! i, s)
            in run_threads P opn ptr val sched (ts[i := t], s))
      else run_threads P opn ptr val sched c)"

text \<open>
  For the proof: whether a thread is between \<^verbatim>\<open>lock\<close> and \<^verbatim>\<open>unlock\<close>, how many of its
  additions have reached memory, and the invariant of \<open>N\<close> threads that add \<open>val\<close> to a
  location that held \<open>v0\<close>, \<open>M\<close> times each.
\<close>

definition in_cs :: "'v thread \<Rightarrow> nat" where
  "in_cs t = (if pc t \<in> {at_load, at_store, at_unlock} then 1 else 0)"

definition credit :: "nat \<Rightarrow> 'v thread \<Rightarrow> nat" where
  "credit M t = (M - todo t) + (if pc t = at_unlock then 1 else 0)"

definition fetch_inv ::
  "platform \<Rightarrow> addr \<Rightarrow> 'a::len word \<Rightarrow> 'a word \<Rightarrow> nat \<Rightarrow> nat
     \<Rightarrow> 'a word thread list \<times> state \<Rightarrow> bool" where
  "fetch_inv P ptr val v0 N M c =
     (let (ts, s) = c in
      length ts = N
      \<and> sum_list (map in_cs ts) = (if locks s (lock_for_pointer ptr) = 0 then 0 else 1)
      \<and> deref P s ptr = v0 + of_nat (sum_list (map (credit M) ts)) * val
      \<and> (\<forall>j < length ts.
            (pc (ts ! j) = at_store \<longrightarrow> tmp (ts ! j) = deref P s ptr)
            \<and> todo (ts ! j) \<le> M
            \<and> (pc (ts ! j) = finished \<longleftrightarrow> todo (ts ! j) = 0)))"

section \<open>The pointer hash\<close>

lemma SPINLOCK_MASK_eq: "SPINLOCK_MASK = mask 10"
  by (simp add: SPINLOCK_MASK_def SPINLOCK_COUNT_def mask_eq_exp_minus_1)

lemma lock_for_pointer_drop_bit:
  "lock_for_pointer ptr = unat ((drop_bit 20 ptr XOR drop_bit 4 ptr) AND (mask 10 :: 64 word))"
proof -
  have "(signed_drop_bit 16 (signed_drop_bit 4 ptr) XOR (signed_drop_bit 4 ptr AND mask 10)) AND mask 10
      = (drop_bit 20 ptr XOR drop_bit 4 ptr) AND (mask 10 :: 64 word)"
    by (rule bit_word_eqI) (auto simp add: bit_simps)
  then show ?thesis
    by (simp add: lock_for_pointer_def Let_def SPINLOCK_MASK_eq)
qed

lemma lock_for_pointer_less: "lock_for_pointer ptr < SPINLOCK_COUNT"
proof -
  have "unat ((drop_bit 20 ptr XOR drop_bit 4 ptr) AND (mask 10 :: 64 word)) < 2 ^ 10"
    by (simp only: unsigned_take_bit_eq take_bit_nat_less_exp flip: take_bit_eq_mask)
  then show ?thesis
    by (simp add: lock_for_pointer_drop_bit SPINLOCK_COUNT_def)
qed

lemma lock_for_spec_bits:
  "lock_for_spec a = take_bit 10 (drop_bit 4 a XOR drop_bit 20 a)"
proof -
  have "take_bit 10 (take_bit 10 (drop_bit 4 a) XOR drop_bit 16 (drop_bit 4 a))
      = take_bit 10 (drop_bit 4 a XOR drop_bit 20 a)"
    by (simp add: bit_eq_iff bit_simps)
  then show ?thesis
    by (simp only: lock_for_spec_def SPINLOCK_COUNT_def take_bit_eq_mod drop_bit_eq_div)
qed

text \<open>
  Claim C5. \<^verbatim>\<open>lock_for_pointer\<close> is a total function of the address alone; its result
  is always an index of the table, and it is the index the specification describes:
  the address shifted right by 4, its low 10 bits as the primary index, the bits 16
  places higher folded in by XOR, the whole masked into \<open>[0, SPINLOCK_COUNT)\<close>.
\<close>

theorem lock_for_pointer_spec:
  "lock_for_pointer ptr = lock_for_spec (unat ptr) \<and> lock_for_pointer ptr < SPINLOCK_COUNT"
proof -
  have "unat ((drop_bit 20 ptr XOR drop_bit 4 ptr) AND (mask 10 :: 64 word))
      = take_bit 10 (drop_bit 4 (unat ptr) XOR drop_bit 20 (unat ptr))"
    by (rule bit_eqI) (auto simp add: bit_simps dest: bit_imp_le_length)
  then have "lock_for_pointer ptr = lock_for_spec (unat ptr)"
    by (simp only: lock_for_pointer_drop_bit lock_for_spec_bits)
  then show ?thesis
    using lock_for_pointer_less [of ptr] by (rule conjI)
qed

section \<open>Acquiring and releasing a lock\<close>

lemma lock_unheld:
  "locks s l = 0 \<Longrightarrow> lock l s = Some (s\<lparr>locks := (locks s)(l := 1)\<rparr>)"
  by (subst lock.simps) simp

lemma lock_Some_unheld: "lock l s = Some s' \<Longrightarrow> locks s l = 0"
  by (rule lock.raw_induct [where P = "\<lambda>l s s'. locks s l = 0"]) (simp_all split: if_splits)

lemma lock_held: "locks s l \<noteq> 0 \<Longrightarrow> lock l s = None"
  using lock_Some_unheld [of l s] by (cases "lock l s") auto

lemma lock_eq_None_iff: "lock l s = None \<longleftrightarrow> locks s l \<noteq> 0"
  using lock_held [of s l] lock_unheld [of s l] by auto

lemma unlock_lock:
  "locks s l = 0 \<Longrightarrow> unlock l (s\<lparr>locks := (locks s)(l := 1), mem := m\<rparr>) = s\<lparr>mem := m\<rparr>"
  by (simp add: unlock_def fun_upd_idem)

section \<open>Reading and writing bytes\<close>

lemma length_addrs [simp]: "length (addrs p n) = n"
  by (simp add: addrs_def)

lemma addrs_Suc: "addrs p (Suc n) = p # addrs (p + 1) n"
  by (simp add: addrs_def upt_conv_Cons map_Suc_upt [symmetric] add.assoc del: upt_Suc)

lemma length_read_bytes [simp]: "length (read_bytes m p n) = n"
  by (simp add: read_bytes_def)

lemma region_Suc: "region p (Suc n) = insert p (region (p + 1) n)"
  by (simp add: region_def addrs_Suc)

lemma region_0 [simp]: "region p 0 = {}"
  by (simp add: region_def addrs_def)

lemma write_bytes_other: "a \<notin> region p (length bs) \<Longrightarrow> write_bytes m p bs a = m a"
  by (induction bs arbitrary: m p) (auto simp: region_Suc)

lemma write_bytes_inside:
  "a \<in> region p (length bs) \<Longrightarrow> write_bytes m p bs a = write_bytes m' p bs a"
proof (induction bs arbitrary: m m' p)
  case Nil
  then show ?case by simp
next
  case (Cons b bs)
  show ?case
  proof (cases "a \<in> region (p + 1) (length bs)")
    case True
    then have "write_bytes (m(p := b)) (p + 1) bs a = write_bytes (m'(p := b)) (p + 1) bs a"
      by (rule Cons.IH)
    then show ?thesis
      by simp
  next
    case False
    with Cons.prems have "a = p"
      by (simp add: region_Suc)
    with False show ?thesis
      by (simp add: write_bytes_other)
  qed
qed

lemma write_bytes_commute:
  assumes "region p (length bs) \<inter> region q (length cs) = {}"
  shows "write_bytes (write_bytes m p bs) q cs = write_bytes (write_bytes m q cs) p bs"
proof
  fix a
  consider "a \<in> region p (length bs)" "a \<notin> region q (length cs)"
    | "a \<in> region q (length cs)" "a \<notin> region p (length bs)"
    | "a \<notin> region q (length cs)" "a \<notin> region p (length bs)"
    using assms by blast
  then show "write_bytes (write_bytes m p bs) q cs a = write_bytes (write_bytes m q cs) p bs a"
  proof cases
    case 1
    then show ?thesis
      using write_bytes_inside [of a p bs m "write_bytes m q cs"]
      by (simp add: write_bytes_other)
  next
    case 2
    then show ?thesis
      using write_bytes_inside [of a q cs m "write_bytes m p bs"]
      by (simp add: write_bytes_other)
  next
    case 3
    then show ?thesis
      by (simp add: write_bytes_other)
  qed
qed

lemma not_in_next_region: "n < 2 ^ 64 \<Longrightarrow> p \<notin> region (p + 1) n"
proof
  assume n: "n < 2 ^ 64" and "p \<in> region (p + 1) n"
  then obtain i where i: "i < n" and "p = p + 1 + of_nat i"
    by (auto simp: region_def addrs_def)
  then have "(of_nat (Suc i) :: 64 word) = 0"
    by (simp add: add.assoc)
  then have "2 ^ 64 dvd Suc i"
    by (simp only: word_of_nat_eq_0_iff) simp
  with i n show False
    by (auto dest!: dvd_imp_le)
qed

lemma read_write_same:
  "length bs \<le> 2 ^ 64 \<Longrightarrow> read_bytes (write_bytes m p bs) p (length bs) = bs"
proof (induction bs arbitrary: m p)
  case Nil
  then show ?case by (simp add: read_bytes_def addrs_def)
next
  case (Cons b bs)
  then have "length bs < 2 ^ 64" by simp
  then have "p \<notin> region (p + 1) (length bs)" by (rule not_in_next_region)
  then have "write_bytes (m(p := b)) (p + 1) bs p = b"
    by (simp add: write_bytes_other)
  moreover have "read_bytes (write_bytes (m(p := b)) (p + 1) bs) (p + 1) (length bs) = bs"
    using Cons by simp
  ultimately show ?case
    by (simp add: read_bytes_def addrs_Suc)
qed

lemma read_write_other:
  "region q n \<inter> region p (length bs) = {} \<Longrightarrow>
   read_bytes (write_bytes m p bs) q n = read_bytes m q n"
  by (simp add: read_bytes_def) (auto simp: region_def intro!: write_bytes_other)

lemma size_t_less: "size_t sz < 2 ^ 64"
proof -
  have "nat (sz mod 2 ^ 64) < nat (2 ^ 64)"
    by (simp only: zless_nat_conj) simp
  then show ?thesis
    by (simp add: size_t_def)
qed

lemma size_t_small: "0 \<le> sz \<Longrightarrow> sz < 2 ^ 64 \<Longrightarrow> size_t sz = nat sz"
  by (simp add: size_t_def)

lemma memcmp_bytes_eq_0_iff:
  "length as = length bs \<Longrightarrow> memcmp_bytes as bs = 0 \<longleftrightarrow> as = bs"
  by (induction as bs rule: memcmp_bytes.induct) (auto simp: word_uint_eq_iff)

lemma memcmp_eq_0_iff:
  "memcmp p q n s = 0 \<longleftrightarrow> read_bytes (mem s) p n = read_bytes (mem s) q n"
  by (simp add: memcmp_def memcmp_bytes_eq_0_iff)

section \<open>Unsigned integers as bytes\<close>

lemma length_to_bytes [simp]: "length (to_bytes P (w :: 'a::len word)) = LENGTH('a) div 8"
  by (simp add: to_bytes_def le_bytes_def)

lemma bit_le_word:
  "bit (le_word bs :: 'a::len word) n \<longleftrightarrow>
     n < LENGTH('a) \<and> n div 8 < length bs \<and> bit (bs ! (n div 8)) (n mod 8)"
proof -
  have "horner_sum uint 256 bs = horner_sum uint (2 ^ LENGTH(8)) bs"
    by simp
  then show ?thesis
    by (simp only: le_word_def bit_word_of_int_iff bit_horner_sum_uint_exp_iff) simp
qed

lemma le_word_le_bytes:
  assumes "8 dvd LENGTH('a)"
  shows "le_word (le_bytes w) = (w :: 'a::len word)"
proof (rule bit_word_eqI)
  fix n assume n: "n < LENGTH('a)"
  from assms n have "n div 8 < LENGTH('a) div 8"
    by (auto simp: dvd_def)
  with n show "bit (le_word (le_bytes w) :: 'a word) n = bit w n"
    by (simp add: bit_le_word le_bytes_def bit_simps)
qed

lemma le_bytes_le_word:
  assumes "length bs * 8 = LENGTH('a)"
  shows "le_bytes (le_word bs :: 'a::len word) = bs"
proof (rule nth_equalityI)
  show "length (le_bytes (le_word bs :: 'a word)) = length bs"
    using assms [symmetric] by (simp add: le_bytes_def)
next
  fix i assume "i < length (le_bytes (le_word bs :: 'a word))"
  then have i: "i < length bs"
    using assms [symmetric] by (simp add: le_bytes_def)
  show "le_bytes (le_word bs :: 'a word) ! i = bs ! i"
  proof (rule bit_word_eqI)
    fix n assume n: "n < LENGTH(8)"
    then have "8 * i + n < LENGTH('a)" "(8 * i + n) div 8 = i" "(8 * i + n) mod 8 = n"
      using i assms [symmetric] by simp_all
    with i n show "bit (le_bytes (le_word bs :: 'a word) ! i) n = bit (bs ! i) n"
      using assms [symmetric] by (simp add: le_bytes_def bit_simps bit_le_word)
  qed
qed

lemma from_to_bytes:
  "8 dvd LENGTH('a) \<Longrightarrow> from_bytes P (to_bytes P w) = (w :: 'a::len word)"
  by (simp add: from_bytes_def to_bytes_def le_word_le_bytes)

lemma to_from_bytes:
  "length bs * 8 = LENGTH('a) \<Longrightarrow> to_bytes P (from_bytes P bs :: 'a::len word) = bs"
  by (simp add: from_bytes_def to_bytes_def le_bytes_le_word)

lemma from_bytes_eq_iff:
  assumes "length as * 8 = LENGTH('a)" "length bs * 8 = LENGTH('a)"
  shows "(from_bytes P as :: 'a::len word) = from_bytes P bs \<longleftrightarrow> as = bs"
proof
  assume "(from_bytes P as :: 'a word) = from_bytes P bs"
  then have "to_bytes P (from_bytes P as :: 'a word) = to_bytes P (from_bytes P bs :: 'a word)"
    by (rule arg_cong)
  then show "as = bs"
    by (simp only: to_from_bytes [OF assms(1)] to_from_bytes [OF assms(2)])
next
  assume "as = bs"
  then show "(from_bytes P as :: 'a word) = from_bytes P bs"
    by (rule arg_cong)
qed


section \<open>Typed accesses and the generic load and store\<close>

lemma locks_memcpy [simp]: "locks (memcpy d p n s) = locks s"
  by (simp add: memcpy_def)

lemma locks_assign [simp]: "locks (assign P p v s) = locks s"
  by (simp add: assign_def)

lemma mem_unlock [simp]: "mem (unlock l s) = mem s"
  by (simp add: unlock_def)

lemma mem_memcpy_other:
  "a \<notin> region d n \<Longrightarrow> mem (memcpy d p n s) a = mem s a"
  by (simp add: memcpy_def write_bytes_other)

lemma read_memcpy_same:
  "n < 2 ^ 64 \<Longrightarrow> read_bytes (mem (memcpy d p n s)) d n = read_bytes (mem s) p n"
  using read_write_same [of "read_bytes (mem s) p n" "mem s" d] by (simp add: memcpy_def)

lemma read_memcpy_other:
  "region q k \<inter> region d n = {} \<Longrightarrow>
   read_bytes (mem (memcpy d p n s)) q k = read_bytes (mem s) q k"
  by (simp add: memcpy_def read_write_other)

lemma mem_assign_other:
  "a \<notin> region p (LENGTH('a) div 8) \<Longrightarrow> mem (assign P p (v :: 'a::len word) s) a = mem s a"
  by (simp add: assign_def write_bytes_other)

lemma read_assign_same:
  assumes "LENGTH('a) = 8 * n" "n \<le> 16"
  shows "read_bytes (mem (assign P p (v :: 'a::len word) s)) p n = to_bytes P v"
proof -
  have "length (to_bytes P v) = n" "length (to_bytes P v) \<le> 2 ^ 64"
    using assms by simp_all
  then show ?thesis
    using read_write_same [of "to_bytes P v" "mem s" p] by (simp add: assign_def)
qed

lemma deref_assign_same:
  assumes "LENGTH('a) = 8 * n" "n \<le> 16"
  shows "deref P (assign P p v s) p = (v :: 'a::len word)"
proof -
  have "8 dvd LENGTH('a)" "LENGTH('a) div 8 = n"
    using assms by simp_all
  then show ?thesis
    using read_assign_same [OF assms, of P p v s] by (simp add: deref_def from_to_bytes)
qed

lemma assign_deref:
  assumes "LENGTH('a) = 8 * n"
  shows "assign P d (deref P s p :: 'a::len word) s = memcpy d p n s"
proof -
  have "length (read_bytes (mem s) p n) * 8 = LENGTH('a)" "LENGTH('a) div 8 = n"
    using assms by simp_all
  then show ?thesis
    by (simp add: assign_def deref_def memcpy_def to_from_bytes)
qed

lemma deref_eq_iff:
  assumes "LENGTH('a) = 8 * n"
  shows "(deref P s p :: 'a::len word) = deref P s q \<longleftrightarrow>
         read_bytes (mem s) p n = read_bytes (mem s) q n"
proof -
  have "length (read_bytes (mem s) p n) * 8 = LENGTH('a)"
       "length (read_bytes (mem s) q n) * 8 = LENGTH('a)" "LENGTH('a) div 8 = n"
    using assms by simp_all
  then show ?thesis
    by (simp add: deref_def from_bytes_eq_iff)
qed

lemma to_bytes_deref:
  assumes "LENGTH('a) = 8 * n"
  shows "to_bytes P (deref P s p :: 'a::len word) = read_bytes (mem s) p n"
proof -
  have "length (read_bytes (mem s) p n) * 8 = LENGTH('a)" "LENGTH('a) div 8 = n"
    using assms by simp_all
  then show ?thesis
    by (simp add: deref_def to_from_bytes)
qed

lemma LOCK_FREE_CASES_Some:
  "LOCK_FREE_CASES P sz = Some ty \<longleftrightarrow>
     (sz = 1 \<and> ty = uint8_t \<or> sz = 2 \<and> ty = uint16_t \<or> sz = 4 \<and> ty = uint32_t \<or>
      sz = 8 \<and> ty = uint64_t) \<and> is_lock_free P (nat sz)"
  by (auto simp: LOCK_FREE_CASES_def IS_LOCK_FREE_def)

lemma LOCK_FREE_CASES_None:
  "LOCK_FREE_CASES P sz = None \<longleftrightarrow> \<not> (sz \<in> {1, 2, 4, 8} \<and> is_lock_free P (nat sz))"
  by (auto simp: LOCK_FREE_CASES_def IS_LOCK_FREE_def)

lemma size_t_numeral [simp]:
  "size_t 1 = 1" "size_t 2 = 2" "size_t 4 = 4" "size_t 8 = 8" "size_t 16 = 16"
  by (simp_all add: size_t_def)

lemma load_LOCK_FREE_ACTION_memcpy:
  "LOCK_FREE_CASES P sz = Some ty \<Longrightarrow>
   load_LOCK_FREE_ACTION ty P src dest s = memcpy dest src (size_t sz) s"
  by (auto simp: LOCK_FREE_CASES_Some load_action_def c11_atomic_load_def assign_deref)

lemma store_LOCK_FREE_ACTION_memcpy:
  "LOCK_FREE_CASES P sz = Some ty \<Longrightarrow>
   store_LOCK_FREE_ACTION ty P dest src s = memcpy dest src (size_t sz) s"
  by (auto simp: LOCK_FREE_CASES_Some store_action_def c11_atomic_store_def assign_deref)

lemma unlock_lock_memcpy:
  "locks s l = 0 \<Longrightarrow> unlock l (memcpy d p n (s\<lparr>locks := (locks s)(l := 1)\<rparr>)) = memcpy d p n s"
  by (simp add: unlock_def memcpy_def fun_upd_idem)

lemma atomic_load_c_unheld:
  "locks s (lock_for_pointer src) = 0 \<Longrightarrow>
   atomic_load_c P sz src dest model s = Some (memcpy dest src (size_t sz) s)"
  by (cases "LOCK_FREE_CASES P sz")
    (simp_all add: atomic_load_c_def lock_unheld unlock_lock_memcpy load_LOCK_FREE_ACTION_memcpy)

lemma atomic_store_c_unheld:
  "locks s (lock_for_pointer dest) = 0 \<Longrightarrow>
   atomic_store_c P sz dest src model s = Some (memcpy dest src (size_t sz) s)"
  by (cases "LOCK_FREE_CASES P sz")
    (simp_all add: atomic_store_c_def lock_unheld unlock_lock_memcpy store_LOCK_FREE_ACTION_memcpy)


section \<open>The generic compare-exchange\<close>

lemma unlock_lock_assign:
  "locks s l = 0 \<Longrightarrow> unlock l (assign P p v (s\<lparr>locks := (locks s)(l := 1)\<rparr>)) = assign P p v s"
  by (simp add: unlock_def assign_def fun_upd_idem)

lemma unlock_lock_id:
  "locks s l = 0 \<Longrightarrow> unlock l (s\<lparr>locks := (locks s)(l := 1)\<rparr>) = s"
  by (simp add: unlock_def fun_upd_idem)

lemma mem_locked [simp]: "mem (s\<lparr>locks := L\<rparr>) = mem s"
  by simp

lemma deref_locked [simp]: "deref P (s\<lparr>locks := L\<rparr>) p = deref P s p"
  by (simp add: deref_def)

lemma memcmp_locked [simp]: "memcmp p q n (s\<lparr>locks := L\<rparr>) = memcmp p q n s"
  by (simp add: memcmp_def)

text \<open>The strong compare-exchange on bytes.\<close>

lemma c11_strong_bytes:
  assumes "LENGTH('a) = 8 * n"
  shows "c11_atomic_compare_exchange_strong P ptr expected (deref P s desired :: 'a::len word) s =
     (if read_bytes (mem s) ptr n = read_bytes (mem s) expected n
      then (True, memcpy ptr desired n s) else (False, memcpy expected ptr n s))"
  by (simp add: c11_atomic_compare_exchange_strong_def deref_eq_iff [OF assms] assign_deref [OF assms])

lemma compare_exchange_action_strong:
  assumes "LENGTH('a) = 8 * n" "\<not> (gnuc P \<and> weak_fails P)"
  shows "compare_exchange_action TYPE('a::len) P ptr expected desired s =
     (if read_bytes (mem s) ptr n = read_bytes (mem s) expected n
      then (1, memcpy ptr desired n s) else (0, memcpy expected ptr n s))"
  using assms(2)
  by (auto simp add: compare_exchange_action_def builtin_atomic_compare_exchange_n_def
      c11_strong_bytes [OF assms(1)])

lemma compare_exchange_action_weak:
  assumes "LENGTH('a) = 8 * n" "gnuc P" "weak_fails P"
  shows "compare_exchange_action TYPE('a::len) P ptr expected desired s =
     (if read_bytes (mem s) ptr n = read_bytes (mem s) expected n
      then (0, s) else (0, memcpy expected ptr n s))"
  using assms(2,3)
  by (auto simp add: compare_exchange_action_def builtin_atomic_compare_exchange_n_def
      c11_strong_bytes [OF assms(1)] deref_eq_iff [OF assms(1)])

lemma compare_exchange_LOCK_FREE_ACTION_strong:
  "LOCK_FREE_CASES P sz = Some ty \<Longrightarrow> \<not> (gnuc P \<and> weak_fails P) \<Longrightarrow>
   compare_exchange_LOCK_FREE_ACTION ty P ptr expected desired s =
     (if read_bytes (mem s) ptr (size_t sz) = read_bytes (mem s) expected (size_t sz)
      then (1, memcpy ptr desired (size_t sz) s) else (0, memcpy expected ptr (size_t sz) s))"
  by (auto simp: LOCK_FREE_CASES_Some compare_exchange_action_strong)

lemma atomic_compare_exchange_c_strong:
  assumes "locks s (lock_for_pointer ptr) = 0"
      and "\<not> (gnuc P \<and> weak_fails P \<and> LOCK_FREE_CASES P sz \<noteq> None)"
  shows "atomic_compare_exchange_c P sz ptr expected desired success failure s =
     Some (if read_bytes (mem s) ptr (size_t sz) = read_bytes (mem s) expected (size_t sz)
           then (1, memcpy ptr desired (size_t sz) s)
           else (0, memcpy expected ptr (size_t sz) s))"
proof (cases "LOCK_FREE_CASES P sz")
  case None
  then show ?thesis
    using assms(1)
    by (simp add: atomic_compare_exchange_c_def lock_unheld memcmp_eq_0_iff unlock_lock_memcpy)
next
  case (Some ty)
  with assms(2) have "\<not> (gnuc P \<and> weak_fails P)"
    by simp
  with Some show ?thesis
    by (simp add: atomic_compare_exchange_c_def compare_exchange_LOCK_FREE_ACTION_strong)
qed

lemma builtin_weak_bytes:
  assumes "LENGTH('a) = 8 * n"
  shows "builtin_atomic_compare_exchange_n P ptr expected (deref P s desired :: 'a::len word) True s =
     (if weak_fails P \<and> read_bytes (mem s) ptr n = read_bytes (mem s) expected n then (False, s)
      else if read_bytes (mem s) ptr n = read_bytes (mem s) expected n
      then (True, memcpy ptr desired n s) else (False, memcpy expected ptr n s))"
  by (simp add: builtin_atomic_compare_exchange_n_def c11_strong_bytes [OF assms]
      deref_eq_iff [OF assms])

lemma compare_exchange_action_bytes:
  assumes "LENGTH('a) = 8 * n"
  shows "compare_exchange_action TYPE('a::len) P ptr expected desired s =
     (if gnuc P \<and> weak_fails P \<and> read_bytes (mem s) ptr n = read_bytes (mem s) expected n
      then (0, s)
      else if read_bytes (mem s) ptr n = read_bytes (mem s) expected n
      then (1, memcpy ptr desired n s) else (0, memcpy expected ptr n s))"
  by (simp add: compare_exchange_action_def builtin_weak_bytes [OF assms]
      c11_strong_bytes [OF assms])

lemma compare_exchange_LOCK_FREE_ACTION_bytes:
  "LOCK_FREE_CASES P sz = Some ty \<Longrightarrow>
   compare_exchange_LOCK_FREE_ACTION ty P ptr expected desired s =
     (if gnuc P \<and> weak_fails P
         \<and> read_bytes (mem s) ptr (size_t sz) = read_bytes (mem s) expected (size_t sz)
      then (0, s)
      else if read_bytes (mem s) ptr (size_t sz) = read_bytes (mem s) expected (size_t sz)
      then (1, memcpy ptr desired (size_t sz) s) else (0, memcpy expected ptr (size_t sz) s))"
  by (auto simp: LOCK_FREE_CASES_Some compare_exchange_action_bytes [where n = 1]
      compare_exchange_action_bytes [where n = 2] compare_exchange_action_bytes [where n = 4]
      compare_exchange_action_bytes [where n = 8])

section \<open>The generic exchange and the sized operations\<close>

lemma exchange_action_bytes:
  assumes "LENGTH('a) = 8 * n"
  shows "exchange_action TYPE('a::len) P ptr val old s =
     s\<lparr>mem := write_bytes (write_bytes (mem s) ptr (read_bytes (mem s) val n)) old
                (read_bytes (mem s) ptr n)\<rparr>"
proof -
  have "assign P old (deref P s ptr :: 'a word) (memcpy ptr val n s) =
      s\<lparr>mem := write_bytes (write_bytes (mem s) ptr (read_bytes (mem s) val n)) old
                (read_bytes (mem s) ptr n)\<rparr>"
    by (simp add: assign_def to_bytes_deref [OF assms] memcpy_def)
  then show ?thesis
    by (simp add: exchange_action_def c11_atomic_exchange_def assign_deref [OF assms])
qed

lemma exchange_slow_bytes:
  assumes "region old n \<inter> region ptr n = {}" "region old n \<inter> region val n = {}"
  shows "memcpy ptr val n (memcpy old ptr n s) =
     s\<lparr>mem := write_bytes (write_bytes (mem s) ptr (read_bytes (mem s) val n)) old
                (read_bytes (mem s) ptr n)\<rparr>"
proof -
  have "read_bytes (write_bytes (mem s) old (read_bytes (mem s) ptr n)) val n
      = read_bytes (mem s) val n"
    using assms(2) by (simp add: read_write_other Int_commute)
  moreover have "write_bytes (write_bytes (mem s) old (read_bytes (mem s) ptr n)) ptr
        (read_bytes (mem s) val n)
      = write_bytes (write_bytes (mem s) ptr (read_bytes (mem s) val n)) old
        (read_bytes (mem s) ptr n)"
    using assms(1) by (intro write_bytes_commute) simp
  ultimately show ?thesis
    by (simp add: memcpy_def)
qed

lemma exchange_LOCK_FREE_ACTION_bytes:
  "LOCK_FREE_CASES P sz = Some ty \<Longrightarrow>
   exchange_LOCK_FREE_ACTION ty P ptr val old s =
     s\<lparr>mem := write_bytes (write_bytes (mem s) ptr (read_bytes (mem s) val (size_t sz))) old
                (read_bytes (mem s) ptr (size_t sz))\<rparr>"
  by (auto simp: LOCK_FREE_CASES_Some exchange_action_bytes)

lemma atomic_exchange_c_unheld:
  assumes "locks s (lock_for_pointer ptr) = 0"
      and "region old (size_t sz) \<inter> region ptr (size_t sz) = {}"
      and "region old (size_t sz) \<inter> region val (size_t sz) = {}"
  shows "atomic_exchange_c P sz ptr val old model s =
     Some (memcpy ptr val (size_t sz) (memcpy old ptr (size_t sz) s))"
proof (cases "LOCK_FREE_CASES P sz")
  case None
  then show ?thesis
    using assms(1)
    by (simp add: atomic_exchange_c_def lock_unheld unlock_def memcpy_def fun_upd_idem)
next
  case (Some ty)
  then show ?thesis
    by (simp add: atomic_exchange_c_def exchange_LOCK_FREE_ACTION_bytes
        exchange_slow_bytes [OF assms(2,3)])
qed

text \<open>The sized operations when the lock of the address is not held.\<close>

lemma atomic_load_N_unheld:
  "locks s (lock_for_pointer src) = 0 \<Longrightarrow>
   atomic_load_N P src model s = Some (deref P s src, s)"
  by (simp add: atomic_load_N_def c11_atomic_load_def lock_unheld unlock_lock_id Let_def)

lemma atomic_store_N_unheld:
  "locks s (lock_for_pointer dest) = 0 \<Longrightarrow>
   atomic_store_N P dest val model s = Some (assign P dest val s)"
  by (simp add: atomic_store_N_def c11_atomic_store_def lock_unheld unlock_lock_assign)

lemma atomic_exchange_N_unheld:
  "locks s (lock_for_pointer dest) = 0 \<Longrightarrow>
   atomic_exchange_N P dest val model s = Some (deref P s dest, assign P dest val s)"
  by (simp add: atomic_exchange_N_def c11_atomic_exchange_def lock_unheld unlock_lock_assign
      Let_def)

lemma atomic_fetch_N_unheld:
  "locks s (lock_for_pointer ptr) = 0 \<Longrightarrow>
   atomic_fetch_N P opn ptr val model s =
     Some (deref P s ptr, assign P ptr (rmw opn (deref P s ptr) val) s)"
  by (simp add: atomic_fetch_N_def c11_atomic_fetch_def lock_unheld unlock_lock_assign Let_def)

lemma atomic_compare_exchange_N_strong:
  assumes "locks s (lock_for_pointer ptr) = 0"
      and "\<not> (gnuc P \<and> weak_fails P \<and> IS_LOCK_FREE P (LENGTH('a) div 8))"
  shows "atomic_compare_exchange_N P ptr expected (desired :: 'a::len word) success failure s =
     Some (c11_atomic_compare_exchange_strong P ptr expected desired s)"
  using assms
  by (auto simp add: atomic_compare_exchange_N_def builtin_atomic_compare_exchange_n_def
      c11_atomic_compare_exchange_strong_def lock_unheld unlock_lock_assign)

section \<open>Fetch-and-op\<close>

lemma unat_rmw:
  assumes "LENGTH('a) = 8 * n"
  shows "unat (rmw opn a b :: 'a::len word) = unsigned_op opn n (unat a) (unat b)"
proof (cases opn)
  case fetch_add
  then show ?thesis
    by (simp add: unsigned_op_def unat_word_ariths assms)
next
  case fetch_sub
  have 1: "unat (a - b) = nat (uint (a - b))"
    by (rule unat_eq_nat_uint)
  have 2: "uint (a - b) = (int (unat a) - int (unat b)) mod 2 ^ (8 * n)"
    by (simp add: uint_word_ariths assms)
  show ?thesis
    unfolding unsigned_op_def fetch_sub by (simp only: 1 2 opname.case rmw.simps)
next
  case fetch_and
  have "unat a AND unat b < 2 ^ (8 * n)"
    using unsigned_less [of "a AND b", where ?'a = nat] by (simp add: unsigned_and_eq assms)
  then show ?thesis
    using fetch_and by (simp add: unsigned_op_def unsigned_and_eq)
next
  case fetch_or
  have "unat a OR unat b < 2 ^ (8 * n)"
    using unsigned_less [of "a OR b", where ?'a = nat] by (simp add: unsigned_or_eq assms)
  then show ?thesis
    using fetch_or by (simp add: unsigned_op_def unsigned_or_eq)
next
  case fetch_xor
  have "unat a XOR unat b < 2 ^ (8 * n)"
    using unsigned_less [of "a XOR b", where ?'a = nat] by (simp add: unsigned_xor_eq assms)
  then show ?thesis
    using fetch_xor by (simp add: unsigned_op_def unsigned_xor_eq)
qed

text \<open>
  Claim C3. For each width \<open>n\<close> of the sized entry points and each of add, sub, and, or,
  xor, \<^verbatim>\<open>__atomic_fetch_op_n\<close> on an address whose lock is not held returns the prior
  value of the \<open>n\<close> bytes read as an unsigned integer and leaves there
  \<open>old op operand\<close> modulo \<open>2 ^ (8 * n)\<close>, on the fast and on the slow path alike. The
  instances below are the two scenarios of the claim: adding 5 to an 8-byte zero returns
  0 and leaves 5, adding 1 to the maximum of a width leaves 0.
\<close>

theorem fetch_op_unsigned_wraparound:
  assumes "LENGTH('a) = 8 * n" and "n \<in> {1, 2, 4, 8, 16}"
      and "locks s (lock_for_pointer ptr) = 0"
  shows "\<exists>s'. atomic_fetch_N P opn ptr (val :: 'a::len word) model s = Some (deref P s ptr, s')
           \<and> unat (deref P s' ptr :: 'a word)
               = unsigned_op opn n (unat (deref P s ptr :: 'a word)) (unat val)
           \<and> locks s' = locks s"
proof -
  let ?old = "deref P s ptr :: 'a word"
  let ?s' = "assign P ptr (rmw opn ?old val) s"
  from assms(2) have n: "n \<le> 16"
    by auto
  have "atomic_fetch_N P opn ptr val model s = Some (?old, ?s')"
    using assms(3) by (rule atomic_fetch_N_unheld)
  moreover have "deref P ?s' ptr = rmw opn ?old val"
    using assms(1) n by (rule deref_assign_same)
  then have "unat (deref P ?s' ptr :: 'a word) = unsigned_op opn n (unat ?old) (unat val)"
    by (simp only: unat_rmw [OF assms(1)])
  moreover have "locks ?s' = locks s"
    by simp
  ultimately show ?thesis
    by blast
qed

theorem fetch_op_unsigned_wraparound_witness:
  "(\<exists>s'. atomic_fetch_N locked_only fetch_add 0x1000 (5 :: 64 word) 5 zeroed = Some (0, s')
       \<and> unat (deref locked_only s' 0x1000 :: 64 word) = 5 \<and> locks s' = locks zeroed)
   \<and> (\<exists>s'. atomic_fetch_N clang_le fetch_add 0x1000 (1 :: 32 word) 5 all_ones
              = Some (0xFFFFFFFF, s')
       \<and> unat (deref clang_le s' 0x1000 :: 32 word) = 0 \<and> locks s' = locks all_ones)"
proof -
  have z: "deref locked_only zeroed 0x1000 = (0 :: 64 word)"
    by (simp add: deref_def zeroed_def locked_only_def from_bytes_def le_word_def read_bytes_def
        addrs_def upt_rec)
  have o: "deref clang_le all_ones 0x1000 = (0xFFFFFFFF :: 32 word)"
    by (simp add: deref_def all_ones_def clang_le_def from_bytes_def le_word_def read_bytes_def
        addrs_def upt_rec)
  have l: "locks zeroed (lock_for_pointer 0x1000) = 0" "locks all_ones (lock_for_pointer 0x1000) = 0"
    by (simp_all add: zeroed_def all_ones_def)
  show ?thesis
    using fetch_op_unsigned_wraparound [of 8 zeroed "0x1000" locked_only fetch_add "5 :: 64 word" 5]
      fetch_op_unsigned_wraparound [of 4 all_ones "0x1000" clang_le fetch_add "1 :: 32 word" 5]
    by (simp add: z o l unsigned_op_def)
qed

section \<open>Store and load\<close>

text \<open>
  Claim C2. For each size in 1, 2, 4, 8, 16 and any bytes \<open>X\<close> (those at \<open>src\<close>),
  \<^verbatim>\<open>__atomic_store_c\<close> of \<open>X\<close> to \<open>ptr\<close> followed by \<^verbatim>\<open>__atomic_load_c\<close> from \<open>ptr\<close> into
  \<open>dest\<close> both return and leave \<open>X\<close> at \<open>dest\<close>; the sized store of a value \<open>v\<close> followed
  by the sized load returns \<open>v\<close>. The platform is arbitrary, so the statement covers the
  native path and the locked one.
\<close>

theorem store_load_roundtrip:
  assumes "sz \<in> {1, 2, 4, 8, 16}" and "locks s (lock_for_pointer ptr) = 0"
      and "LENGTH('a) = 8 * nat sz"
  shows "(\<exists>s1 s2. atomic_store_c P sz ptr src m1 s = Some s1
            \<and> atomic_load_c P sz ptr dest m2 s1 = Some s2
            \<and> read_bytes (mem s2) dest (nat sz) = read_bytes (mem s) src (nat sz))
       \<and> (\<exists>s1 s2. atomic_store_N P ptr (v :: 'a::len word) m1 s = Some s1
            \<and> atomic_load_N P ptr m2 s1 = Some (v, s2))"
proof -
  from assms(1) have n: "size_t sz = nat sz" "nat sz < 2 ^ 64" "nat sz \<le> 16"
    by auto
  let ?s1 = "memcpy ptr src (nat sz) s"
  let ?s2 = "memcpy dest ptr (nat sz) ?s1"
  have "atomic_store_c P sz ptr src m1 s = Some ?s1"
    using assms(2) by (simp add: atomic_store_c_unheld n)
  moreover have "atomic_load_c P sz ptr dest m2 ?s1 = Some ?s2"
    using assms(2) by (simp add: atomic_load_c_unheld n)
  moreover have "read_bytes (mem ?s2) dest (nat sz) = read_bytes (mem s) src (nat sz)"
    using n(2) by (simp add: read_memcpy_same)
  moreover have "atomic_store_N P ptr v m1 s = Some (assign P ptr v s)"
    using assms(2) by (rule atomic_store_N_unheld)
  moreover have "atomic_load_N P ptr m2 (assign P ptr v s) = Some (v, assign P ptr v s)"
    using assms(2) by (simp add: atomic_load_N_unheld deref_assign_same [OF assms(3) n(3)])
  ultimately show ?thesis
    by blast
qed

theorem store_load_roundtrip_witness:
  "(\<exists>s1 s2. atomic_store_c clang_le 4 0x1000 0x2010 5 counting = Some s1
       \<and> atomic_load_c clang_le 4 0x1000 0x3000 5 s1 = Some s2
       \<and> read_bytes (mem s2) 0x3000 4 = [0x10, 0x11, 0x12, 0x13])
   \<and> (\<exists>s1 s2. atomic_store_N locked_only 0x1000 (0xCAFE :: 16 word) 5 counting = Some s1
       \<and> atomic_load_N locked_only 0x1000 5 s1 = Some (0xCAFE :: 16 word, s2))"
proof -
  have l: "locks counting (lock_for_pointer 0x1000) = 0"
    by (simp add: counting_def)
  have r: "read_bytes (mem counting) 0x2010 4 = [0x10, 0x11, 0x12, 0x13]"
    by (simp add: counting_def read_bytes_def addrs_def upt_rec)
  show ?thesis
    using store_load_roundtrip [of 4 counting "0x1000" clang_le "0x2010" 5 "0x3000" 5,
        where ?'a = 32]
      store_load_roundtrip [of 2 counting "0x1000" locked_only "0x2000" 5 "0x3000" 5 "0xCAFE :: 16 word"]
    by (simp add: l r)
qed

section \<open>Exchange\<close>

text \<open>
  \<^verbatim>\<open>__atomic_exchange_c\<close> on an address whose lock is not held returns with the prior
  bytes of \<open>ptr\<close> in \<open>old\<close>, the bytes of \<open>val\<close> in \<open>ptr\<close> and the lock released again,
  provided \<open>old\<close> overlaps neither \<open>ptr\<close> nor \<open>val\<close>; the sized exchange returns the prior
  value and leaves the new one.
\<close>

lemma exchange_disjoint_buffers:
  assumes "locks s (lock_for_pointer ptr) = 0"
  shows "(region old (size_t sz) \<inter> region ptr (size_t sz) = {}
          \<and> region old (size_t sz) \<inter> region val (size_t sz) = {} \<longrightarrow>
          (\<exists>s'. atomic_exchange_c P sz ptr val old model s = Some s'
             \<and> read_bytes (mem s') old (size_t sz) = read_bytes (mem s) ptr (size_t sz)
             \<and> read_bytes (mem s') ptr (size_t sz) = read_bytes (mem s) val (size_t sz)
             \<and> locks s' = locks s))
       \<and> (LENGTH('a) = 8 * n \<and> n \<in> {1, 2, 4, 8, 16} \<longrightarrow>
          (\<exists>s'. atomic_exchange_N P ptr (v :: 'a::len word) model s = Some (deref P s ptr, s')
             \<and> deref P s' ptr = v \<and> locks s' = locks s))"
proof (intro conjI impI)
  assume d: "region old (size_t sz) \<inter> region ptr (size_t sz) = {}
    \<and> region old (size_t sz) \<inter> region val (size_t sz) = {}"
  let ?n = "size_t sz"
  let ?s1 = "memcpy old ptr ?n s"
  let ?s' = "memcpy ptr val ?n ?s1"
  have lt: "?n < 2 ^ 64"
    by (rule size_t_less)
  have "atomic_exchange_c P sz ptr val old model s = Some ?s'"
    using assms d by (simp add: atomic_exchange_c_unheld)
  moreover have "read_bytes (mem ?s') old ?n = read_bytes (mem s) ptr ?n"
    using d by (simp add: read_memcpy_other read_memcpy_same [OF lt])
  moreover have "read_bytes (mem ?s1) val ?n = read_bytes (mem s) val ?n"
    using d by (simp add: read_memcpy_other Int_commute)
  then have "read_bytes (mem ?s') ptr ?n = read_bytes (mem s) val ?n"
    by (simp add: read_memcpy_same [OF lt])
  moreover have "locks ?s' = locks s"
    by simp
  ultimately show "\<exists>s'. atomic_exchange_c P sz ptr val old model s = Some s'
      \<and> read_bytes (mem s') old ?n = read_bytes (mem s) ptr ?n
      \<and> read_bytes (mem s') ptr ?n = read_bytes (mem s) val ?n \<and> locks s' = locks s"
    by blast
next
  assume w: "LENGTH('a) = 8 * n \<and> n \<in> {1, 2, 4, 8, 16}"
  then have n: "LENGTH('a) = 8 * n" "n \<le> 16"
    by auto
  have "atomic_exchange_N P ptr v model s = Some (deref P s ptr, assign P ptr v s)"
    using assms by (rule atomic_exchange_N_unheld)
  moreover have "deref P (assign P ptr v s) ptr = v"
    using n by (rule deref_assign_same)
  ultimately show "\<exists>s'. atomic_exchange_N P ptr v model s = Some (deref P s ptr, s')
      \<and> deref P s' ptr = v \<and> locks s' = locks s"
    by simp
qed

lemma atomic_exchange_c_locked:
  assumes "LOCK_FREE_CASES P sz = None" and "locks s (lock_for_pointer ptr) = 0"
  shows "atomic_exchange_c P sz ptr val old model s =
     Some (memcpy ptr val (size_t sz) (memcpy old ptr (size_t sz) s))"
  using assms
  by (simp add: atomic_exchange_c_def lock_unheld unlock_def memcpy_def fun_upd_idem)

lemma atomic_exchange_c_native:
  assumes "LOCK_FREE_CASES P sz = Some ty"
  shows "atomic_exchange_c P sz ptr val old model s =
     Some (s\<lparr>mem := write_bytes (write_bytes (mem s) ptr (read_bytes (mem s) val (size_t sz))) old
                (read_bytes (mem s) ptr (size_t sz))\<rparr>)"
  using assms by (simp add: atomic_exchange_c_def exchange_LOCK_FREE_ACTION_bytes)

text \<open>
  With one buffer for the value and the result, the slow path of the generic exchange
  copies the old contents over the new value before it writes it: \<open>ptr\<close> keeps its
  contents.
\<close>

lemma atomic_exchange_c_aliased:
  assumes "LOCK_FREE_CASES P sz = None" and "locks s (lock_for_pointer ptr) = 0"
      and "region ptr (size_t sz) \<inter> region buf (size_t sz) = {}"
  shows "\<exists>s'. atomic_exchange_c P sz ptr buf buf model s = Some s'
     \<and> read_bytes (mem s') ptr (size_t sz) = read_bytes (mem s) ptr (size_t sz)
     \<and> read_bytes (mem s') buf (size_t sz) = read_bytes (mem s) ptr (size_t sz)"
proof -
  let ?n = "size_t sz"
  let ?s1 = "memcpy buf ptr ?n s"
  let ?s' = "memcpy ptr buf ?n ?s1"
  have lt: "?n < 2 ^ 64"
    by (rule size_t_less)
  have 1: "read_bytes (mem ?s1) buf ?n = read_bytes (mem s) ptr ?n"
    by (rule read_memcpy_same [OF lt])
  have "read_bytes (mem ?s') ptr ?n = read_bytes (mem ?s1) buf ?n"
    by (rule read_memcpy_same [OF lt])
  moreover have "read_bytes (mem ?s') buf ?n = read_bytes (mem ?s1) buf ?n"
    using assms(3) by (simp add: read_memcpy_other Int_commute)
  ultimately show ?thesis
    using atomic_exchange_c_locked [OF assms(1,2)] 1 by simp
qed

text \<open>
  Claim C7. An exchange is to leave the new value in \<open>ptr\<close> and to hand back the prior
  contents. The slow path of \<^verbatim>\<open>__atomic_exchange_c\<close> runs \<^verbatim>\<open>memcpy(old, ptr, size)\<close>
  before \<^verbatim>\<open>memcpy(ptr, val, size)\<close>: when the caller passes one buffer for \<open>val\<close> and
  \<open>old\<close>, the first copy overwrites the new value and the second writes the old contents
  back. Here the 8 bytes at \<open>0x1000\<close> are 0 to 7, the buffer at \<open>0x2008\<close> holds 8 to 15
  and 8-byte atomics are not lock-free: the call returns with 0 to 7 still at \<open>0x1000\<close>,
  the new value is lost. The fast path of the same function reads \<^verbatim>\<open>*val\<close> before it
  writes \<^verbatim>\<open>*old\<close>: on the same input, where 8-byte atomics are lock-free, it leaves 8
  to 15 at \<open>0x1000\<close> and 0 to 7 in the buffer.
\<close>

theorem exchange_shared_buffer_loses_value:
  "read_bytes (mem counting) 0x1000 8 = [0, 1, 2, 3, 4, 5, 6, 7]
   \<and> read_bytes (mem counting) 0x2008 8 = [8, 9, 10, 11, 12, 13, 14, 15]
   \<and> atomic_exchange_c locked_only 8 0x1000 0x2008 0x2008 5 counting
       = Some (memcpy 0x1000 0x2008 8 (memcpy 0x2008 0x1000 8 counting))
   \<and> read_bytes (mem (memcpy 0x1000 0x2008 8 (memcpy 0x2008 0x1000 8 counting))) 0x1000 8
       = [0, 1, 2, 3, 4, 5, 6, 7]
   \<and> read_bytes (mem (memcpy 0x1000 0x2008 8 (memcpy 0x2008 0x1000 8 counting))) 0x2008 8
       = [0, 1, 2, 3, 4, 5, 6, 7]
   \<and> atomic_exchange_c clang_le 8 0x1000 0x2008 0x2008 5 counting
       = Some (assign clang_le 0x2008 (deref clang_le counting 0x1000 :: 64 word)
                (snd (c11_atomic_exchange clang_le 0x1000
                        (deref clang_le counting 0x2008 :: 64 word) counting)))
   \<and> read_bytes (mem (assign clang_le 0x2008 (deref clang_le counting 0x1000 :: 64 word)
                (snd (c11_atomic_exchange clang_le 0x1000
                        (deref clang_le counting 0x2008 :: 64 word) counting)))) 0x1000 8
       = [8, 9, 10, 11, 12, 13, 14, 15]
   \<and> read_bytes (mem (assign clang_le 0x2008 (deref clang_le counting 0x1000 :: 64 word)
                (snd (c11_atomic_exchange clang_le 0x1000
                        (deref clang_le counting 0x2008 :: 64 word) counting)))) 0x2008 8
       = [0, 1, 2, 3, 4, 5, 6, 7]"
proof -
  let ?slow = "memcpy 0x1000 0x2008 8 (memcpy 0x2008 0x1000 8 counting)"
  let ?fast = "assign clang_le 0x2008 (deref clang_le counting 0x1000 :: 64 word)
      (snd (c11_atomic_exchange clang_le 0x1000 (deref clang_le counting 0x2008 :: 64 word) counting))"
  have r: "read_bytes (mem counting) 0x1000 8 = [0, 1, 2, 3, 4, 5, 6, 7]"
      "read_bytes (mem counting) 0x2008 8 = [8, 9, 10, 11, 12, 13, 14, 15]"
    by (simp_all add: counting_def read_bytes_def addrs_def upt_rec)
  have l: "locks counting (lock_for_pointer 0x1000) = 0"
    by (simp add: counting_def)
  have c: "LOCK_FREE_CASES locked_only 8 = None" "LOCK_FREE_CASES clang_le 8 = Some uint64_t"
    by (simp_all add: LOCK_FREE_CASES_def IS_LOCK_FREE_def locked_only_def clang_le_def)
  have d: "region 0x1000 8 \<inter> region 0x2008 8 = {}"
    by (simp add: region_def addrs_def upt_rec)
  have s: "atomic_exchange_c locked_only 8 0x1000 0x2008 0x2008 5 counting = Some ?slow"
    using atomic_exchange_c_locked [OF c(1) l, of "0x2008" "0x2008" 5] by simp
  have s1: "read_bytes (mem (memcpy 0x2008 0x1000 8 counting)) 0x2008 8 = [0, 1, 2, 3, 4, 5, 6, 7]"
    using read_memcpy_same [of 8 "0x2008" "0x1000" counting] by (simp add: r)
  have s2: "read_bytes (mem ?slow) 0x1000 8 = [0, 1, 2, 3, 4, 5, 6, 7]"
    using read_memcpy_same [of 8 "0x1000" "0x2008" "memcpy 0x2008 0x1000 8 counting"]
    by (simp add: s1)
  have s3: "read_bytes (mem ?slow) 0x2008 8 = [0, 1, 2, 3, 4, 5, 6, 7]"
    using read_memcpy_other [of "0x2008" 8 "0x1000" 8 "0x2008" "memcpy 0x2008 0x1000 8 counting"] d
    by (simp add: s1 Int_commute)
  have m: "?fast = counting\<lparr>mem := write_bytes (write_bytes (mem counting) 0x1000
        (read_bytes (mem counting) 0x2008 8)) 0x2008 (read_bytes (mem counting) 0x1000 8)\<rparr>"
    by (simp add: c11_atomic_exchange_def assign_def to_bytes_deref [where n = 8])
  have f: "atomic_exchange_c clang_le 8 0x1000 0x2008 0x2008 5 counting = Some ?fast"
    using atomic_exchange_c_native [OF c(2), of "0x1000" "0x2008" "0x2008" 5 counting]
    by (simp only: m size_t_numeral)
  have "read_bytes (write_bytes (write_bytes (mem counting) 0x1000
        (read_bytes (mem counting) 0x2008 8)) 0x2008 (read_bytes (mem counting) 0x1000 8)) 0x2008 8
      = read_bytes (mem counting) 0x1000 8"
    using read_write_same [of "read_bytes (mem counting) 0x1000 8"
        "write_bytes (mem counting) 0x1000 (read_bytes (mem counting) 0x2008 8)" "0x2008"]
    by simp
  then have f1: "read_bytes (mem ?fast) 0x2008 8 = [0, 1, 2, 3, 4, 5, 6, 7]"
    by (simp add: m r)
  have "read_bytes (write_bytes (write_bytes (mem counting) 0x1000
        (read_bytes (mem counting) 0x2008 8)) 0x2008 (read_bytes (mem counting) 0x1000 8)) 0x1000 8
      = read_bytes (write_bytes (mem counting) 0x1000 (read_bytes (mem counting) 0x2008 8)) 0x1000 8"
    using d by (intro read_write_other) simp
  also have "\<dots> = read_bytes (mem counting) 0x2008 8"
    using read_write_same [of "read_bytes (mem counting) 0x2008 8" "mem counting" "0x1000"]
    by simp
  finally have f2: "read_bytes (mem ?fast) 0x1000 8 = [8, 9, 10, 11, 12, 13, 14, 15]"
    by (simp add: m r)
  show ?thesis
    using r s s2 s3 f f1 f2 by simp
qed

section \<open>Compare-exchange\<close>

text \<open>
  On the slow path, and on the fast path of a build whose native compare-exchange is
  strong, \<^verbatim>\<open>__atomic_compare_exchange_c\<close> does what its comment says: it succeeds exactly
  when the bytes are equal, then \<open>ptr\<close> holds the bytes of \<open>desired\<close> and \<open>expected\<close> is
  as before; otherwise \<open>ptr\<close> is as before and \<open>expected\<close> holds its bytes.
\<close>

lemma compare_exchange_c_strong:
  assumes "locks s (lock_for_pointer ptr) = 0"
      and "\<not> (gnuc P \<and> weak_fails P \<and> LOCK_FREE_CASES P sz \<noteq> None)"
      and "region expected (size_t sz) \<inter> region ptr (size_t sz) = {}"
  shows "\<exists>r s'. atomic_compare_exchange_c P sz ptr expected desired success failure s = Some (r, s')
     \<and> (r = 1 \<longleftrightarrow> read_bytes (mem s) ptr (size_t sz) = read_bytes (mem s) expected (size_t sz))
     \<and> (r = 0 \<longleftrightarrow> read_bytes (mem s) ptr (size_t sz) \<noteq> read_bytes (mem s) expected (size_t sz))
     \<and> (r = 1 \<longrightarrow> read_bytes (mem s') ptr (size_t sz) = read_bytes (mem s) desired (size_t sz)
                \<and> read_bytes (mem s') expected (size_t sz) = read_bytes (mem s) expected (size_t sz))
     \<and> (r = 0 \<longrightarrow> read_bytes (mem s') ptr (size_t sz) = read_bytes (mem s) ptr (size_t sz)
                \<and> read_bytes (mem s') expected (size_t sz) = read_bytes (mem s) ptr (size_t sz))
     \<and> locks s' = locks s"
proof -
  let ?n = "size_t sz"
  have lt: "?n < 2 ^ 64"
    by (rule size_t_less)
  have d: "region ptr ?n \<inter> region expected ?n = {}"
    using assms(3) by (simp add: Int_commute)
  show ?thesis
  proof (cases "read_bytes (mem s) ptr ?n = read_bytes (mem s) expected ?n")
    case True
    let ?s' = "memcpy ptr desired ?n s"
    have "atomic_compare_exchange_c P sz ptr expected desired success failure s = Some (1, ?s')"
      using True by (simp add: atomic_compare_exchange_c_strong [OF assms(1,2)])
    moreover have "read_bytes (mem ?s') ptr ?n = read_bytes (mem s) desired ?n"
      by (rule read_memcpy_same [OF lt])
    moreover have "read_bytes (mem ?s') expected ?n = read_bytes (mem s) expected ?n"
      using assms(3) by (rule read_memcpy_other)
    ultimately show ?thesis
      using True by simp
  next
    case False
    let ?s' = "memcpy expected ptr ?n s"
    have "atomic_compare_exchange_c P sz ptr expected desired success failure s = Some (0, ?s')"
      using False by (simp add: atomic_compare_exchange_c_strong [OF assms(1,2)])
    moreover have "read_bytes (mem ?s') expected ?n = read_bytes (mem s) ptr ?n"
      by (rule read_memcpy_same [OF lt])
    moreover have "read_bytes (mem ?s') ptr ?n = read_bytes (mem s) ptr ?n"
      using d by (rule read_memcpy_other)
    ultimately show ?thesis
      using False by simp
  qed
qed

text \<open>
  Claim C1. A compare-exchange is to succeed exactly when the bytes at \<open>ptr\<close> and at
  \<open>expected\<close> are equal, and never to fail otherwise. In a GCC build the fast path of
  \<^verbatim>\<open>__atomic_compare_exchange_c\<close> and of the sized \<^verbatim>\<open>__atomic_compare_exchange_4\<close> calls
  the builtin with \<^verbatim>\<open>true\<close> for \<^verbatim>\<open>weak\<close>. Here the 4 bytes at \<open>0x1000\<close> and at \<open>0x2000\<close>
  are equal, 4-byte atomics are lock-free and the target's weak compare-exchange fails:
  both entry points return failure and leave memory as it was, where the function's
  comment and the clang branch (\<^verbatim>\<open>_strong\<close>) have a success that stores \<open>desired\<close>.
\<close>

theorem compare_exchange_gnuc_spurious_failure:
  "read_bytes (mem counting) 0x1000 4 = read_bytes (mem counting) 0x2000 4
   \<and> atomic_compare_exchange_c gcc_ppc 4 0x1000 0x2000 0x3010 5 5 counting = Some (0, counting)
   \<and> atomic_compare_exchange_N gcc_ppc 0x1000 0x2000 (0xDEADBEEF :: 32 word) 5 5 counting
       = Some (False, counting)"
proof -
  have r: "read_bytes (mem counting) 0x1000 4 = read_bytes (mem counting) 0x2000 4"
    by (simp add: counting_def read_bytes_def addrs_def upt_rec)
  have c: "LOCK_FREE_CASES gcc_ppc 4 = Some uint32_t"
    by (simp add: LOCK_FREE_CASES_def IS_LOCK_FREE_def gcc_ppc_def)
  have w: "gnuc gcc_ppc" "weak_fails gcc_ppc" "IS_LOCK_FREE gcc_ppc 4"
    by (simp_all add: gcc_ppc_def IS_LOCK_FREE_def)
  have "atomic_compare_exchange_c gcc_ppc 4 0x1000 0x2000 0x3010 5 5 counting = Some (0, counting)"
    using r by (simp add: atomic_compare_exchange_c_def c compare_exchange_action_weak [where n = 4] w)
  moreover have "(deref gcc_ppc counting 0x1000 :: 32 word) = deref gcc_ppc counting 0x2000"
    using r by (simp add: deref_eq_iff [where n = 4])
  then have "atomic_compare_exchange_N gcc_ppc 0x1000 0x2000 (0xDEADBEEF :: 32 word) 5 5 counting
      = Some (False, counting)"
    by (simp add: atomic_compare_exchange_N_def builtin_atomic_compare_exchange_n_def w)
  ultimately show ?thesis
    using r by simp
qed

section \<open>Dispatch\<close>

lemma assign_locks: "assign P p v (s\<lparr>locks := L\<rparr>) = (assign P p v s)\<lparr>locks := L\<rparr>"
  by (simp add: assign_def)

lemma LOCK_FREE_CASES_fast:
  "sz \<in> {1, 2, 4, 8} \<Longrightarrow> is_lock_free P (nat sz) \<Longrightarrow> \<exists>ty. LOCK_FREE_CASES P sz = Some ty"
  by (cases "LOCK_FREE_CASES P sz") (simp_all add: LOCK_FREE_CASES_None)

text \<open>The generic operations on the slow path wait for the lock of the address.\<close>

lemma generic_slow:
  assumes "\<not> (sz \<in> {1, 2, 4, 8} \<and> is_lock_free P (nat sz))"
  shows "atomic_load_c P sz p q m s = None \<longleftrightarrow> locks s (lock_for_pointer p) \<noteq> 0"
    and "atomic_store_c P sz p q m s = None \<longleftrightarrow> locks s (lock_for_pointer p) \<noteq> 0"
    and "atomic_compare_exchange_c P sz p q d m m' s = None \<longleftrightarrow> locks s (lock_for_pointer p) \<noteq> 0"
    and "atomic_exchange_c P sz p q d m s = None \<longleftrightarrow> locks s (lock_for_pointer p) \<noteq> 0"
proof -
  from assms have c: "LOCK_FREE_CASES P sz = None"
    by (simp add: LOCK_FREE_CASES_None)
  show "atomic_load_c P sz p q m s = None \<longleftrightarrow> locks s (lock_for_pointer p) \<noteq> 0"
    by (simp add: atomic_load_c_def c Let_def lock_eq_None_iff [symmetric] split: option.split)
  show "atomic_store_c P sz p q m s = None \<longleftrightarrow> locks s (lock_for_pointer p) \<noteq> 0"
    by (simp add: atomic_store_c_def c Let_def lock_eq_None_iff [symmetric] split: option.split)
  show "atomic_compare_exchange_c P sz p q d m m' s = None \<longleftrightarrow> locks s (lock_for_pointer p) \<noteq> 0"
    by (simp add: atomic_compare_exchange_c_def c Let_def lock_eq_None_iff [symmetric]
        split: option.split)
  show "atomic_exchange_c P sz p q d m s = None \<longleftrightarrow> locks s (lock_for_pointer p) \<noteq> 0"
    by (simp add: atomic_exchange_c_def c Let_def lock_eq_None_iff [symmetric] split: option.split)
qed

text \<open>The same for the sized operations.\<close>

lemma sized_slow:
  fixes v :: "'a::len word"
  assumes "\<not> IS_LOCK_FREE P (LENGTH('a) div 8)"
  shows "(atomic_load_N P p m s :: ('a word \<times> state) option) = None
           \<longleftrightarrow> locks s (lock_for_pointer p) \<noteq> 0"
    and "atomic_store_N P p v m s = None \<longleftrightarrow> locks s (lock_for_pointer p) \<noteq> 0"
    and "atomic_exchange_N P p v m s = None \<longleftrightarrow> locks s (lock_for_pointer p) \<noteq> 0"
    and "atomic_compare_exchange_N P p q v m m' s = None \<longleftrightarrow> locks s (lock_for_pointer p) \<noteq> 0"
    and "atomic_fetch_N P opn p v m s = None \<longleftrightarrow> locks s (lock_for_pointer p) \<noteq> 0"
  using assms
  by (auto simp add: atomic_load_N_def atomic_store_N_def atomic_exchange_N_def
      atomic_compare_exchange_N_def atomic_fetch_N_def Let_def lock_eq_None_iff [symmetric]
      split: option.split)

lemma IS_LOCK_FREE_iff:
  "n \<in> {1, 2, 4, 8, 16} \<Longrightarrow> IS_LOCK_FREE P n \<longleftrightarrow> n \<in> {1, 2, 4, 8} \<and> is_lock_free P n"
  by (auto simp: IS_LOCK_FREE_def)


lemma lock_eq:
  "lock l s = (if locks s l = 0 then Some (s\<lparr>locks := (locks s)(l := 1)\<rparr>) else None)"
  by (simp add: lock_unheld lock_held)

lemma LOCK_FREE_CASES_nat:
  assumes "n \<in> {1, 2, 4, 8}" and "is_lock_free P n"
  shows "\<exists>ty. LOCK_FREE_CASES P (int n) = Some ty"
  using assms LOCK_FREE_CASES_fast [of "int n" P] by auto

lemma native_locks:
  "c11_atomic_store P p v (s\<lparr>locks := L\<rparr>) = (c11_atomic_store P p v s)\<lparr>locks := L\<rparr>"
  "c11_atomic_load P p (s\<lparr>locks := L\<rparr>) = c11_atomic_load P p s"
  "c11_atomic_exchange P p v (s\<lparr>locks := L\<rparr>)
     = (case c11_atomic_exchange P p v s of (r, s') \<Rightarrow> (r, s'\<lparr>locks := L\<rparr>))"
  "c11_atomic_fetch P opn p v (s\<lparr>locks := L\<rparr>)
     = (case c11_atomic_fetch P opn p v s of (r, s') \<Rightarrow> (r, s'\<lparr>locks := L\<rparr>))"
  "c11_atomic_compare_exchange_strong P p q v (s\<lparr>locks := L\<rparr>)
     = (case c11_atomic_compare_exchange_strong P p q v s of (r, s') \<Rightarrow> (r, s'\<lparr>locks := L\<rparr>))"
  "builtin_atomic_compare_exchange_n P p q v w (s\<lparr>locks := L\<rparr>)
     = (case builtin_atomic_compare_exchange_n P p q v w s of (r, s') \<Rightarrow> (r, s'\<lparr>locks := L\<rparr>))"
  by (simp_all add: c11_atomic_store_def c11_atomic_load_def c11_atomic_exchange_def
      c11_atomic_fetch_def c11_atomic_compare_exchange_strong_def
      builtin_atomic_compare_exchange_n_def assign_locks)

text \<open>The generic operations on the fast path are the native operation of the type.\<close>

lemma generic_native:
  assumes "LENGTH('a::len) = 8 * n" and "n \<in> {1, 2, 4, 8}" and "is_lock_free P n"
  shows "atomic_load_c P (int n) p q m s
           = Some (assign P q (c11_atomic_load P p s :: 'a word) s)"
    and "atomic_store_c P (int n) p q m s
           = Some (c11_atomic_store P p (deref P s q :: 'a word) s)"
    and "atomic_exchange_c P (int n) p q d m s
           = Some (case c11_atomic_exchange P p (deref P s q :: 'a word) s of
                     (r, s') \<Rightarrow> assign P d r s')"
    and "atomic_compare_exchange_c P (int n) p q d m m' s
           = Some (case (if gnuc P
                         then builtin_atomic_compare_exchange_n P p q (deref P s d :: 'a word) True s
                         else c11_atomic_compare_exchange_strong P p q (deref P s d :: 'a word) s) of
                     (r, s') \<Rightarrow> (if r then 1 else 0, s'))"
proof -
  from assms(2,3) obtain ty where ty: "LOCK_FREE_CASES P (int n) = Some ty"
    using LOCK_FREE_CASES_nat by blast
  have n: "size_t (int n) = n"
    using assms(2) by auto
  show "atomic_load_c P (int n) p q m s = Some (assign P q (c11_atomic_load P p s :: 'a word) s)"
    by (simp add: atomic_load_c_def ty load_LOCK_FREE_ACTION_memcpy [OF ty] n c11_atomic_load_def
        assign_deref [OF assms(1)])
  show "atomic_store_c P (int n) p q m s = Some (c11_atomic_store P p (deref P s q :: 'a word) s)"
    by (simp add: atomic_store_c_def ty store_LOCK_FREE_ACTION_memcpy [OF ty] n
        c11_atomic_store_def assign_deref [OF assms(1)])
  have "assign P d (deref P s p :: 'a word) (assign P p (deref P s q :: 'a word) s)
      = s\<lparr>mem := write_bytes (write_bytes (mem s) p (read_bytes (mem s) q n)) d
                (read_bytes (mem s) p n)\<rparr>"
    by (simp add: assign_deref [OF assms(1)] memcpy_def assign_def to_bytes_deref [OF assms(1)])
  then show "atomic_exchange_c P (int n) p q d m s
      = Some (case c11_atomic_exchange P p (deref P s q :: 'a word) s of
                (r, s') \<Rightarrow> assign P d r s')"
    by (simp add: atomic_exchange_c_def ty exchange_LOCK_FREE_ACTION_bytes [OF ty] n
        c11_atomic_exchange_def)
  show "atomic_compare_exchange_c P (int n) p q d m m' s
      = Some (case (if gnuc P
                    then builtin_atomic_compare_exchange_n P p q (deref P s d :: 'a word) True s
                    else c11_atomic_compare_exchange_strong P p q (deref P s d :: 'a word) s) of
                (r, s') \<Rightarrow> (if r then 1 else 0, s'))"
    by (simp add: atomic_compare_exchange_c_def ty compare_exchange_LOCK_FREE_ACTION_bytes [OF ty] n
        builtin_weak_bytes [OF assms(1)] c11_strong_bytes [OF assms(1)])
qed

text \<open>The sized operations on the fast path.\<close>

lemma sized_native:
  fixes v :: "'a::len word"
  assumes "IS_LOCK_FREE P (LENGTH('a) div 8)"
  shows "atomic_load_N P p m s = Some (c11_atomic_load P p s :: 'a word, s)"
    and "atomic_store_N P p v m s = Some (c11_atomic_store P p v s)"
    and "atomic_exchange_N P p v m s = Some (c11_atomic_exchange P p v s)"
    and "atomic_compare_exchange_N P p q v m m' s
           = Some (if gnuc P then builtin_atomic_compare_exchange_n P p q v True s
                   else c11_atomic_compare_exchange_strong P p q v s)"
    and "atomic_fetch_N P opn p v m s = Some (c11_atomic_fetch P opn p v s)"
  using assms
  by (simp_all add: atomic_load_N_def atomic_store_N_def atomic_exchange_N_def
      atomic_compare_exchange_N_def atomic_fetch_N_def)

text \<open>The slow path: \<^verbatim>\<open>lock\<close>, the copies, \<^verbatim>\<open>unlock\<close>.\<close>

lemma generic_locked:
  assumes "\<not> (sz \<in> {1, 2, 4, 8} \<and> is_lock_free P (nat sz))"
  shows "atomic_load_c P sz p q m s =
           (case lock (lock_for_pointer p) s of None \<Rightarrow> None
            | Some s1 \<Rightarrow> Some (unlock (lock_for_pointer p) (memcpy q p (size_t sz) s1)))"
    and "atomic_store_c P sz p q m s =
           (case lock (lock_for_pointer p) s of None \<Rightarrow> None
            | Some s1 \<Rightarrow> Some (unlock (lock_for_pointer p) (memcpy p q (size_t sz) s1)))"
    and "atomic_exchange_c P sz p q d m s =
           (case lock (lock_for_pointer p) s of None \<Rightarrow> None
            | Some s1 \<Rightarrow> Some (unlock (lock_for_pointer p)
                (memcpy p q (size_t sz) (memcpy d p (size_t sz) s1))))"
    and "atomic_compare_exchange_c P sz p q d m m' s =
           (case lock (lock_for_pointer p) s of None \<Rightarrow> None
            | Some s1 \<Rightarrow>
                if memcmp p q (size_t sz) s1 = 0
                then Some (1, unlock (lock_for_pointer p) (memcpy p d (size_t sz) s1))
                else Some (0, unlock (lock_for_pointer p) (memcpy q p (size_t sz) s1)))"
proof -
  from assms have c: "LOCK_FREE_CASES P sz = None"
    by (simp add: LOCK_FREE_CASES_None)
  show "atomic_load_c P sz p q m s =
      (case lock (lock_for_pointer p) s of None \<Rightarrow> None
       | Some s1 \<Rightarrow> Some (unlock (lock_for_pointer p) (memcpy q p (size_t sz) s1)))"
    by (simp add: atomic_load_c_def c Let_def)
  show "atomic_store_c P sz p q m s =
      (case lock (lock_for_pointer p) s of None \<Rightarrow> None
       | Some s1 \<Rightarrow> Some (unlock (lock_for_pointer p) (memcpy p q (size_t sz) s1)))"
    by (simp add: atomic_store_c_def c Let_def)
  show "atomic_exchange_c P sz p q d m s =
      (case lock (lock_for_pointer p) s of None \<Rightarrow> None
       | Some s1 \<Rightarrow> Some (unlock (lock_for_pointer p)
           (memcpy p q (size_t sz) (memcpy d p (size_t sz) s1))))"
    by (simp add: atomic_exchange_c_def c Let_def split: option.split)
  show "atomic_compare_exchange_c P sz p q d m m' s =
      (case lock (lock_for_pointer p) s of None \<Rightarrow> None
       | Some s1 \<Rightarrow>
           if memcmp p q (size_t sz) s1 = 0
           then Some (1, unlock (lock_for_pointer p) (memcpy p d (size_t sz) s1))
           else Some (0, unlock (lock_for_pointer p) (memcpy q p (size_t sz) s1)))"
    by (simp add: atomic_compare_exchange_c_def c Let_def)
qed

lemma sized_locked:
  fixes v :: "'a::len word"
  assumes "\<not> IS_LOCK_FREE P (LENGTH('a) div 8)"
  shows "atomic_load_N P p m s =
           (case lock (lock_for_pointer p) s of None \<Rightarrow> None
            | Some s1 \<Rightarrow> Some (deref P s1 p :: 'a word, unlock (lock_for_pointer p) s1))"
    and "atomic_store_N P p v m s =
           (case lock (lock_for_pointer p) s of None \<Rightarrow> None
            | Some s1 \<Rightarrow> Some (unlock (lock_for_pointer p) (assign P p v s1)))"
    and "atomic_exchange_N P p v m s =
           (case lock (lock_for_pointer p) s of None \<Rightarrow> None
            | Some s1 \<Rightarrow> Some (deref P s1 p, unlock (lock_for_pointer p) (assign P p v s1)))"
    and "atomic_compare_exchange_N P p q v m m' s =
           (case lock (lock_for_pointer p) s of None \<Rightarrow> None
            | Some s1 \<Rightarrow>
                if (deref P s1 p :: 'a word) = deref P s1 q
                then Some (True, unlock (lock_for_pointer p) (assign P p v s1))
                else Some (False, unlock (lock_for_pointer p)
                       (assign P q (deref P s1 p :: 'a word) s1)))"
    and "atomic_fetch_N P opn p v m s =
           (case lock (lock_for_pointer p) s of None \<Rightarrow> None
            | Some s1 \<Rightarrow> Some (deref P s1 p,
                unlock (lock_for_pointer p) (assign P p (rmw opn (deref P s1 p) v) s1)))"
  using assms
  by (simp_all add: atomic_load_N_def atomic_store_N_def atomic_exchange_N_def
      atomic_compare_exchange_N_def atomic_fetch_N_def Let_def split: option.split)

text \<open>
  Claim C4. For a size \<open>n\<close> in 1, 2, 4, 8 that the compiler reports lock-free, each generic
  and each sized operation is the native operation on the unsigned type of \<open>n\<close> bytes:
  \<^verbatim>\<open>__c11_atomic_load\<close>, \<^verbatim>\<open>__c11_atomic_store\<close>, \<^verbatim>\<open>__c11_atomic_exchange\<close>, the
  compare-exchange builtin of the build, \<^verbatim>\<open>__c11_atomic_fetch_op\<close>. The call is made
  in a state with an arbitrary lock table \<open>L\<close> (with \<open>L = locks s\<close> that state is \<open>s\<close>);
  its result is computed from \<open>s\<close> and hands \<open>L\<close> back as it was, so the table is neither
  read nor written. For any other size, and for a size in 1, 2, 4, 8 that is not
  lock-free, the operation is \<^verbatim>\<open>lock\<close> on the slot that \<^verbatim>\<open>lock_for_pointer\<close> picks, the
  copies of the slow path in the state \<^verbatim>\<open>lock\<close> returns, then \<^verbatim>\<open>unlock\<close>; and \<^verbatim>\<open>lock\<close>
  returns only from a released slot, with the slot held, while \<^verbatim>\<open>unlock\<close> releases it.
  Size 16 is of the second kind on every platform, also one whose compiler reports 16
  bytes lock-free.
\<close>

theorem lock_free_dispatch:
  fixes v :: "'a::len word"
  assumes "LENGTH('a) = 8 * n" and "n \<in> {1, 2, 4, 8, 16}"
  shows
    "(n \<in> {1, 2, 4, 8} \<and> is_lock_free P n \<longrightarrow>
        atomic_load_c P (int n) p q m (s\<lparr>locks := L\<rparr>)
          = Some ((assign P q (c11_atomic_load P p s :: 'a word) s)\<lparr>locks := L\<rparr>)
      \<and> atomic_store_c P (int n) p q m (s\<lparr>locks := L\<rparr>)
          = Some ((c11_atomic_store P p (deref P s q :: 'a word) s)\<lparr>locks := L\<rparr>)
      \<and> atomic_exchange_c P (int n) p q d m (s\<lparr>locks := L\<rparr>)
          = Some ((case c11_atomic_exchange P p (deref P s q :: 'a word) s of
                     (r, s') \<Rightarrow> assign P d r s')\<lparr>locks := L\<rparr>)
      \<and> atomic_compare_exchange_c P (int n) p q d m m' (s\<lparr>locks := L\<rparr>)
          = Some (case (if gnuc P
                        then builtin_atomic_compare_exchange_n P p q (deref P s d :: 'a word) True s
                        else c11_atomic_compare_exchange_strong P p q (deref P s d :: 'a word) s) of
                    (r, s') \<Rightarrow> (if r then 1 else 0, s'\<lparr>locks := L\<rparr>))
      \<and> atomic_load_N P p m (s\<lparr>locks := L\<rparr>)
          = Some (c11_atomic_load P p s :: 'a word, s\<lparr>locks := L\<rparr>)
      \<and> atomic_store_N P p v m (s\<lparr>locks := L\<rparr>)
          = Some ((c11_atomic_store P p v s)\<lparr>locks := L\<rparr>)
      \<and> atomic_exchange_N P p v m (s\<lparr>locks := L\<rparr>)
          = Some (case c11_atomic_exchange P p v s of (r, s') \<Rightarrow> (r, s'\<lparr>locks := L\<rparr>))
      \<and> atomic_compare_exchange_N P p q v m m' (s\<lparr>locks := L\<rparr>)
          = Some (case (if gnuc P then builtin_atomic_compare_exchange_n P p q v True s
                        else c11_atomic_compare_exchange_strong P p q v s) of
                    (r, s') \<Rightarrow> (r, s'\<lparr>locks := L\<rparr>))
      \<and> atomic_fetch_N P opn p v m (s\<lparr>locks := L\<rparr>)
          = Some (case c11_atomic_fetch P opn p v s of (r, s') \<Rightarrow> (r, s'\<lparr>locks := L\<rparr>)))
   \<and> (\<not> (sz \<in> {1, 2, 4, 8} \<and> is_lock_free P (nat sz)) \<or> sz = 16 \<longrightarrow>
        atomic_load_c P sz p q m s =
          (case lock (lock_for_pointer p) s of None \<Rightarrow> None
           | Some s1 \<Rightarrow> Some (unlock (lock_for_pointer p) (memcpy q p (size_t sz) s1)))
      \<and> atomic_store_c P sz p q m s =
          (case lock (lock_for_pointer p) s of None \<Rightarrow> None
           | Some s1 \<Rightarrow> Some (unlock (lock_for_pointer p) (memcpy p q (size_t sz) s1)))
      \<and> atomic_exchange_c P sz p q d m s =
          (case lock (lock_for_pointer p) s of None \<Rightarrow> None
           | Some s1 \<Rightarrow> Some (unlock (lock_for_pointer p)
               (memcpy p q (size_t sz) (memcpy d p (size_t sz) s1))))
      \<and> atomic_compare_exchange_c P sz p q d m m' s =
          (case lock (lock_for_pointer p) s of None \<Rightarrow> None
           | Some s1 \<Rightarrow>
               if memcmp p q (size_t sz) s1 = 0
               then Some (1, unlock (lock_for_pointer p) (memcpy p d (size_t sz) s1))
               else Some (0, unlock (lock_for_pointer p) (memcpy q p (size_t sz) s1))))
   \<and> (\<not> (n \<in> {1, 2, 4, 8} \<and> is_lock_free P n) \<or> n = 16 \<longrightarrow>
        atomic_load_N P p m s =
          (case lock (lock_for_pointer p) s of None \<Rightarrow> None
           | Some s1 \<Rightarrow> Some (deref P s1 p :: 'a word, unlock (lock_for_pointer p) s1))
      \<and> atomic_store_N P p v m s =
          (case lock (lock_for_pointer p) s of None \<Rightarrow> None
           | Some s1 \<Rightarrow> Some (unlock (lock_for_pointer p) (assign P p v s1)))
      \<and> atomic_exchange_N P p v m s =
          (case lock (lock_for_pointer p) s of None \<Rightarrow> None
           | Some s1 \<Rightarrow> Some (deref P s1 p, unlock (lock_for_pointer p) (assign P p v s1)))
      \<and> atomic_compare_exchange_N P p q v m m' s =
          (case lock (lock_for_pointer p) s of None \<Rightarrow> None
           | Some s1 \<Rightarrow>
               if (deref P s1 p :: 'a word) = deref P s1 q
               then Some (True, unlock (lock_for_pointer p) (assign P p v s1))
               else Some (False, unlock (lock_for_pointer p)
                      (assign P q (deref P s1 p :: 'a word) s1)))
      \<and> atomic_fetch_N P opn p v m s =
          (case lock (lock_for_pointer p) s of None \<Rightarrow> None
           | Some s1 \<Rightarrow> Some (deref P s1 p,
               unlock (lock_for_pointer p) (assign P p (rmw opn (deref P s1 p) v) s1))))
   \<and> lock l s = (if locks s l = 0 then Some (s\<lparr>locks := (locks s)(l := 1)\<rparr>) else None)
   \<and> unlock l s = s\<lparr>locks := (locks s)(l := 0)\<rparr>"
proof (intro conjI impI)
  assume a: "n \<in> {1, 2, 4, 8} \<and> is_lock_free P n"
  then have a1: "n \<in> {1, 2, 4, 8}" and a2: "is_lock_free P n"
    by simp_all
  from a have c: "IS_LOCK_FREE P (LENGTH('a) div 8)"
    using assms by (simp add: IS_LOCK_FREE_iff)
  let ?s = "s\<lparr>locks := L\<rparr>"
  show "atomic_load_c P (int n) p q m ?s
      = Some ((assign P q (c11_atomic_load P p s :: 'a word) s)\<lparr>locks := L\<rparr>)"
    by (simp add: generic_native(1) [OF assms(1) a1 a2] native_locks assign_locks)
  show "atomic_store_c P (int n) p q m ?s
      = Some ((c11_atomic_store P p (deref P s q :: 'a word) s)\<lparr>locks := L\<rparr>)"
    by (simp add: generic_native(2) [OF assms(1) a1 a2] native_locks)
  show "atomic_exchange_c P (int n) p q d m ?s
      = Some ((case c11_atomic_exchange P p (deref P s q :: 'a word) s of
                 (r, s') \<Rightarrow> assign P d r s')\<lparr>locks := L\<rparr>)"
    by (simp add: generic_native(3) [OF assms(1) a1 a2] native_locks assign_locks
        split: prod.split)
  show "atomic_compare_exchange_c P (int n) p q d m m' ?s
      = Some (case (if gnuc P
                    then builtin_atomic_compare_exchange_n P p q (deref P s d :: 'a word) True s
                    else c11_atomic_compare_exchange_strong P p q (deref P s d :: 'a word) s) of
                (r, s') \<Rightarrow> (if r then 1 else 0, s'\<lparr>locks := L\<rparr>))"
    by (simp add: generic_native(4) [OF assms(1) a1 a2] native_locks split: prod.split)
  show "atomic_load_N P p m ?s = Some (c11_atomic_load P p s :: 'a word, ?s)"
    by (simp add: sized_native(1) [OF c] native_locks)
  show "atomic_store_N P p v m ?s = Some ((c11_atomic_store P p v s)\<lparr>locks := L\<rparr>)"
    by (simp add: sized_native(2) [OF c] native_locks)
  show "atomic_exchange_N P p v m ?s
      = Some (case c11_atomic_exchange P p v s of (r, s') \<Rightarrow> (r, s'\<lparr>locks := L\<rparr>))"
    by (simp add: sized_native(3) [OF c] native_locks)
  show "atomic_compare_exchange_N P p q v m m' ?s
      = Some (case (if gnuc P then builtin_atomic_compare_exchange_n P p q v True s
                    else c11_atomic_compare_exchange_strong P p q v s) of
                (r, s') \<Rightarrow> (r, s'\<lparr>locks := L\<rparr>))"
    by (simp add: sized_native(4) [OF c] native_locks)
  show "atomic_fetch_N P opn p v m ?s
      = Some (case c11_atomic_fetch P opn p v s of (r, s') \<Rightarrow> (r, s'\<lparr>locks := L\<rparr>))"
    by (simp add: sized_native(5) [OF c] native_locks)
next
  assume "\<not> (sz \<in> {1, 2, 4, 8} \<and> is_lock_free P (nat sz)) \<or> sz = 16"
  then have b: "\<not> (sz \<in> {1, 2, 4, 8} \<and> is_lock_free P (nat sz))"
    by auto
  show "atomic_load_c P sz p q m s =
      (case lock (lock_for_pointer p) s of None \<Rightarrow> None
       | Some s1 \<Rightarrow> Some (unlock (lock_for_pointer p) (memcpy q p (size_t sz) s1)))"
    using b by (rule generic_locked)
  show "atomic_store_c P sz p q m s =
      (case lock (lock_for_pointer p) s of None \<Rightarrow> None
       | Some s1 \<Rightarrow> Some (unlock (lock_for_pointer p) (memcpy p q (size_t sz) s1)))"
    using b by (rule generic_locked)
  show "atomic_exchange_c P sz p q d m s =
      (case lock (lock_for_pointer p) s of None \<Rightarrow> None
       | Some s1 \<Rightarrow> Some (unlock (lock_for_pointer p)
           (memcpy p q (size_t sz) (memcpy d p (size_t sz) s1))))"
    using b by (rule generic_locked)
  show "atomic_compare_exchange_c P sz p q d m m' s =
      (case lock (lock_for_pointer p) s of None \<Rightarrow> None
       | Some s1 \<Rightarrow>
           if memcmp p q (size_t sz) s1 = 0
           then Some (1, unlock (lock_for_pointer p) (memcpy p d (size_t sz) s1))
           else Some (0, unlock (lock_for_pointer p) (memcpy q p (size_t sz) s1)))"
    using b by (rule generic_locked)
next
  assume "\<not> (n \<in> {1, 2, 4, 8} \<and> is_lock_free P n) \<or> n = 16"
  then have "\<not> (n \<in> {1, 2, 4, 8} \<and> is_lock_free P n)"
    by auto
  then have e: "\<not> IS_LOCK_FREE P (LENGTH('a) div 8)"
    using assms by (simp add: IS_LOCK_FREE_iff)
  show "atomic_load_N P p m s =
      (case lock (lock_for_pointer p) s of None \<Rightarrow> None
       | Some s1 \<Rightarrow> Some (deref P s1 p :: 'a word, unlock (lock_for_pointer p) s1))"
    using e by (rule sized_locked)
  show "atomic_store_N P p v m s =
      (case lock (lock_for_pointer p) s of None \<Rightarrow> None
       | Some s1 \<Rightarrow> Some (unlock (lock_for_pointer p) (assign P p v s1)))"
    using e by (rule sized_locked)
  show "atomic_exchange_N P p v m s =
      (case lock (lock_for_pointer p) s of None \<Rightarrow> None
       | Some s1 \<Rightarrow> Some (deref P s1 p, unlock (lock_for_pointer p) (assign P p v s1)))"
    using e by (rule sized_locked)
  show "atomic_compare_exchange_N P p q v m m' s =
      (case lock (lock_for_pointer p) s of None \<Rightarrow> None
       | Some s1 \<Rightarrow>
           if (deref P s1 p :: 'a word) = deref P s1 q
           then Some (True, unlock (lock_for_pointer p) (assign P p v s1))
           else Some (False, unlock (lock_for_pointer p)
                  (assign P q (deref P s1 p :: 'a word) s1)))"
    using e by (rule sized_locked)
  show "atomic_fetch_N P opn p v m s =
      (case lock (lock_for_pointer p) s of None \<Rightarrow> None
       | Some s1 \<Rightarrow> Some (deref P s1 p,
           unlock (lock_for_pointer p) (assign P p (rmw opn (deref P s1 p) v) s1)))"
    using e by (rule sized_locked)
next
  show "lock l s = (if locks s l = 0 then Some (s\<lparr>locks := (locks s)(l := 1)\<rparr>) else None)"
    by (rule lock_eq)
  show "unlock l s = s\<lparr>locks := (locks s)(l := 0)\<rparr>"
    by (rule unlock_def)
qed

theorem lock_free_dispatch_witness:
  "atomic_store_c clang_le 4 0x1000 0x3000 5 contended
     = Some ((c11_atomic_store clang_le 0x1000 (deref clang_le zeroed 0x3000 :: 32 word) zeroed)
              \<lparr>locks := locks contended\<rparr>)
   \<and> atomic_fetch_N clang_le fetch_add 0x1000 (1 :: 32 word) 5 contended
     = Some (case c11_atomic_fetch clang_le fetch_add 0x1000 (1 :: 32 word) zeroed of
               (r, s') \<Rightarrow> (r, s'\<lparr>locks := locks contended\<rparr>))
   \<and> atomic_load_c clang_le 16 0x1000 0x3000 5 contended = None
   \<and> atomic_fetch_N clang_le fetch_add 0x1000 (1 :: 128 word) 5 contended = None
   \<and> atomic_store_c clang_le 3 0x1000 0x3000 5 contended = None
   \<and> atomic_load_c locked_only 4 0x1000 0x3000 5 contended = None
   \<and> atomic_load_c locked_only 4 0x1000 0x3000 5 zeroed
     = Some (unlock (lock_for_pointer 0x1000)
         (memcpy 0x3000 0x1000 4 (zeroed\<lparr>locks := (locks zeroed)(lock_for_pointer 0x1000 := 1)\<rparr>)))"
proof -
  have l: "is_lock_free clang_le 4" "is_lock_free clang_le 16" "\<not> is_lock_free locked_only 4"
      "locks contended (lock_for_pointer 0x1000) \<noteq> 0" "locks zeroed (lock_for_pointer 0x1000) = 0"
    by (simp_all add: clang_le_def locked_only_def contended_def zeroed_def)
  have c: "zeroed\<lparr>locks := locks contended\<rparr> = contended"
    by (simp add: zeroed_def contended_def)
  have "atomic_store_c clang_le 4 0x1000 0x3000 5 contended
      = Some ((c11_atomic_store clang_le 0x1000 (deref clang_le zeroed 0x3000 :: 32 word) zeroed)
               \<lparr>locks := locks contended\<rparr>)
    \<and> atomic_fetch_N clang_le fetch_add 0x1000 (1 :: 32 word) 5 contended
      = Some (case c11_atomic_fetch clang_le fetch_add 0x1000 (1 :: 32 word) zeroed of
                (r, s') \<Rightarrow> (r, s'\<lparr>locks := locks contended\<rparr>))"
    using lock_free_dispatch [where ?'a = 32 and n = 4 and sz = 4 and P = clang_le and p = "0x1000"
        and q = "0x3000" and m = 5 and s = zeroed and L = "locks contended"
        and opn = fetch_add and v = 1 and d = 0 and m' = 5 and l = 0]
    by (simp add: l c)
  moreover have "atomic_load_c clang_le 16 0x1000 0x3000 5 contended = None
      \<and> atomic_fetch_N clang_le fetch_add 0x1000 (1 :: 128 word) 5 contended = None"
    using lock_free_dispatch [where ?'a = 128 and n = 16 and sz = 16 and P = clang_le
        and p = "0x1000" and q = "0x3000" and m = 5 and s = contended and L = "locks contended"
        and opn = fetch_add and v = 1 and d = 0 and m' = 5 and l = "lock_for_pointer 0x1000"]
    by (simp add: l)
  moreover have "atomic_store_c clang_le 3 0x1000 0x3000 5 contended = None"
    using lock_free_dispatch [where ?'a = 32 and n = 4 and sz = 3 and P = clang_le
        and p = "0x1000" and q = "0x3000" and m = 5 and s = contended and L = "locks contended"
        and opn = fetch_add and v = 1 and d = 0 and m' = 5 and l = "lock_for_pointer 0x1000"]
    by (simp add: l)
  moreover have "atomic_load_c locked_only 4 0x1000 0x3000 5 contended = None"
    using lock_free_dispatch [where ?'a = 32 and n = 4 and sz = 4 and P = locked_only
        and p = "0x1000" and q = "0x3000" and m = 5 and s = contended and L = "locks contended"
        and opn = fetch_add and v = 1 and d = 0 and m' = 5 and l = "lock_for_pointer 0x1000"]
    by (simp add: l)
  moreover have "atomic_load_c locked_only 4 0x1000 0x3000 5 zeroed
      = Some (unlock (lock_for_pointer 0x1000)
          (memcpy 0x3000 0x1000 4 (zeroed\<lparr>locks := (locks zeroed)(lock_for_pointer 0x1000 := 1)\<rparr>)))"
    using lock_free_dispatch [where ?'a = 32 and n = 4 and sz = 4 and P = locked_only
        and p = "0x1000" and q = "0x3000" and m = 5 and s = zeroed and L = "locks zeroed"
        and opn = fetch_add and v = 1 and d = 0 and m' = 5 and l = "lock_for_pointer 0x1000"]
    by (simp add: l)
  ultimately show ?thesis
    by simp
qed

section \<open>What an operation changes\<close>

lemma atomic_load_c_Some:
  assumes "atomic_load_c P sz src dest model s = Some s'"
  shows "s' = memcpy dest src (size_t sz) s"
proof (cases "LOCK_FREE_CASES P sz")
  case None
  then have "locks s (lock_for_pointer src) = 0"
    using assms generic_slow(1) [of sz P src dest model s] by (auto simp: LOCK_FREE_CASES_None)
  then show ?thesis
    using assms by (simp add: atomic_load_c_unheld)
next
  case (Some ty)
  then show ?thesis
    using assms by (simp add: atomic_load_c_def load_LOCK_FREE_ACTION_memcpy)
qed

lemma atomic_store_c_Some:
  assumes "atomic_store_c P sz dest src model s = Some s'"
  shows "s' = memcpy dest src (size_t sz) s"
proof (cases "LOCK_FREE_CASES P sz")
  case None
  then have "locks s (lock_for_pointer dest) = 0"
    using assms generic_slow(2) [of sz P dest src model s] by (auto simp: LOCK_FREE_CASES_None)
  then show ?thesis
    using assms by (simp add: atomic_store_c_unheld)
next
  case (Some ty)
  then show ?thesis
    using assms by (simp add: atomic_store_c_def store_LOCK_FREE_ACTION_memcpy)
qed

lemma compare_exchange_LOCK_FREE_ACTION_result:
  assumes "LOCK_FREE_CASES P sz = Some ty"
      and "compare_exchange_LOCK_FREE_ACTION ty P ptr expected desired s = (r, s')"
  shows "r = 1 \<and> s' = memcpy ptr desired (size_t sz) s
       \<or> r = 0 \<and> (s' = memcpy expected ptr (size_t sz) s \<or> s' = s)"
proof (cases "gnuc P \<and> weak_fails P")
  case True
  then have "compare_exchange_LOCK_FREE_ACTION ty P ptr expected desired s =
     (if read_bytes (mem s) ptr (size_t sz) = read_bytes (mem s) expected (size_t sz)
      then (0, s) else (0, memcpy expected ptr (size_t sz) s))"
    using assms(1) by (auto simp: LOCK_FREE_CASES_Some compare_exchange_action_weak)
  then show ?thesis
    using assms(2) by (auto split: if_splits)
next
  case False
  then show ?thesis
    using assms by (auto simp: compare_exchange_LOCK_FREE_ACTION_strong split: if_splits)
qed

lemma atomic_compare_exchange_c_result:
  assumes "atomic_compare_exchange_c P sz ptr expected desired success failure s = Some (r, s')"
  shows "r = 1 \<and> s' = memcpy ptr desired (size_t sz) s
       \<or> r = 0 \<and> (s' = memcpy expected ptr (size_t sz) s \<or> s' = s)"
proof (cases "LOCK_FREE_CASES P sz")
  case None
  then have "locks s (lock_for_pointer ptr) = 0"
    using assms generic_slow(3) [of sz P ptr expected desired success failure s]
    by (auto simp: LOCK_FREE_CASES_None)
  then show ?thesis
    using assms None by (auto simp: atomic_compare_exchange_c_strong split: if_splits)
next
  case (Some ty)
  then show ?thesis
    using assms compare_exchange_LOCK_FREE_ACTION_result [OF Some]
    by (simp add: atomic_compare_exchange_c_def)
qed

lemma atomic_exchange_c_Some:
  assumes "atomic_exchange_c P sz ptr val old model s = Some s'"
  shows "locks s' = locks s
     \<and> (\<forall>a. a \<notin> region ptr (size_t sz) \<union> region old (size_t sz) \<longrightarrow> mem s' a = mem s a)"
proof (cases "LOCK_FREE_CASES P sz")
  case None
  then have "locks s (lock_for_pointer ptr) = 0"
    using assms generic_slow(4) [of sz P ptr val old model s] by (auto simp: LOCK_FREE_CASES_None)
  then have "s' = memcpy ptr val (size_t sz) (memcpy old ptr (size_t sz) s)"
    using assms None
    by (simp add: atomic_exchange_c_def lock_unheld unlock_def memcpy_def fun_upd_idem)
  then show ?thesis
    by (simp add: mem_memcpy_other)
next
  case (Some ty)
  then show ?thesis
    using assms
    by (auto simp add: atomic_exchange_c_def exchange_LOCK_FREE_ACTION_bytes write_bytes_other)
qed

lemma sized_Some:
  fixes v :: "'a::len word"
  shows "atomic_load_N P p model s = Some (r :: 'a word, s') \<Longrightarrow> s' = s"
    and "atomic_store_N P p v model s = Some s' \<Longrightarrow> s' = assign P p v s"
    and "atomic_exchange_N P p v model s = Some (r, s') \<Longrightarrow> s' = assign P p v s"
    and "atomic_fetch_N P opn p v model s = Some (r, s') \<Longrightarrow> s' = assign P p (rmw opn r v) s"
    and "atomic_compare_exchange_N P p q v model model' s = Some (b, s') \<Longrightarrow>
           s' = assign P p v s \<or> s' = assign P q (deref P s p :: 'a word) s \<or> s' = s"
proof -
  have l: "lock (lock_for_pointer p) s = Some s1 \<Longrightarrow>
      s1 = s\<lparr>locks := (locks s)(lock_for_pointer p := 1)\<rparr> \<and> locks s (lock_for_pointer p) = 0" for s1
    using lock_Some_unheld [of "lock_for_pointer p" s s1] by (auto simp: lock_unheld)
  show "atomic_load_N P p model s = Some (r :: 'a word, s') \<Longrightarrow> s' = s"
    by (auto simp: atomic_load_N_def Let_def unlock_lock_id dest!: l split: if_splits option.splits)
  show "atomic_store_N P p v model s = Some s' \<Longrightarrow> s' = assign P p v s"
    by (auto simp: atomic_store_N_def c11_atomic_store_def Let_def unlock_lock_assign dest!: l
        split: if_splits option.splits)
  show "atomic_exchange_N P p v model s = Some (r, s') \<Longrightarrow> s' = assign P p v s"
    by (auto simp: atomic_exchange_N_def c11_atomic_exchange_def Let_def unlock_lock_assign
        dest!: l split: if_splits option.splits)
  show "atomic_fetch_N P opn p v model s = Some (r, s') \<Longrightarrow> s' = assign P p (rmw opn r v) s"
    by (auto simp: atomic_fetch_N_def c11_atomic_fetch_def Let_def unlock_lock_assign
        dest!: l split: if_splits option.splits)
  show "atomic_compare_exchange_N P p q v model model' s = Some (b, s') \<Longrightarrow>
      s' = assign P p v s \<or> s' = assign P q (deref P s p :: 'a word) s \<or> s' = s"
    by (auto simp: atomic_compare_exchange_N_def builtin_atomic_compare_exchange_n_def
        c11_atomic_compare_exchange_strong_def Let_def unlock_lock_assign
        dest!: l split: if_splits option.splits)
qed


lemma atomic_compare_exchange_N_result:
  assumes "atomic_compare_exchange_N P p q (v :: 'a::len word) model model' s = Some (b, s')"
  shows "b \<and> s' = assign P p v s
       \<or> \<not> b \<and> (s' = assign P q (deref P s p :: 'a word) s \<or> s' = s)"
proof -
  have l: "lock (lock_for_pointer p) s = Some s1 \<Longrightarrow>
      s1 = s\<lparr>locks := (locks s)(lock_for_pointer p := 1)\<rparr> \<and> locks s (lock_for_pointer p) = 0" for s1
    using lock_Some_unheld [of "lock_for_pointer p" s s1] by (auto simp: lock_unheld)
  show ?thesis
    using assms
    by (auto simp: atomic_compare_exchange_N_def builtin_atomic_compare_exchange_n_def
        c11_atomic_compare_exchange_strong_def Let_def unlock_lock_assign
        dest!: l split: if_splits option.splits)
qed

text \<open>
  Claim C8 as stated. The object an operation is aimed at is not all it writes: a compare-exchange that
  fails overwrites \<open>expected\<close>, and a generic load writes its result to \<open>dest\<close>. Here the
  object is the 4 bytes at \<open>0x1010\<close>; the byte at \<open>0x2000\<close>, respectively \<open>0x3000\<close>, lies
  outside it and changes from \<open>0\<close> to \<open>0x10\<close>.
\<close>

theorem operations_write_result_buffers:
  "0x2000 \<notin> region 0x1010 4 \<and> mem counting 0x2000 = 0
   \<and> atomic_compare_exchange_c locked_only 4 0x1010 0x2000 0x3000 5 5 counting
       = Some (0, memcpy 0x2000 0x1010 4 counting)
   \<and> mem (memcpy 0x2000 0x1010 4 counting) 0x2000 = 0x10
   \<and> 0x3000 \<notin> region 0x1010 4 \<and> mem counting 0x3000 = 0
   \<and> atomic_load_c locked_only 4 0x1010 0x3000 5 counting
       = Some (memcpy 0x3000 0x1010 4 counting)
   \<and> mem (memcpy 0x3000 0x1010 4 counting) 0x3000 = 0x10"
proof -
  have l: "locks counting (lock_for_pointer 0x1010) = 0"
    by (simp add: counting_def)
  have s: "\<not> (gnuc locked_only \<and> weak_fails locked_only \<and> LOCK_FREE_CASES locked_only 4 \<noteq> None)"
    by (simp add: locked_only_def)
  have r: "read_bytes (mem counting) 0x1010 4 = [0x10, 0x11, 0x12, 0x13]"
      "read_bytes (mem counting) 0x2000 4 = [0, 1, 2, 3]"
    by (simp_all add: counting_def read_bytes_def addrs_def upt_rec)
  have "atomic_compare_exchange_c locked_only 4 0x1010 0x2000 0x3000 5 5 counting
      = Some (0, memcpy 0x2000 0x1010 4 counting)"
    using atomic_compare_exchange_c_strong [OF l s, of "0x2000" "0x3000" 5 5] by (simp add: r)
  moreover have "atomic_load_c locked_only 4 0x1010 0x3000 5 counting
      = Some (memcpy 0x3000 0x1010 4 counting)"
    using atomic_load_c_unheld [OF l, of locked_only 4 "0x3000" 5] by simp
  moreover have "mem (memcpy 0x2000 0x1010 4 counting) 0x2000 = 0x10"
      "mem (memcpy 0x3000 0x1010 4 counting) 0x3000 = 0x10"
    by (simp_all add: memcpy_def r)
  moreover have "(0x2000 :: addr) \<notin> region 0x1010 4" "(0x3000 :: addr) \<notin> region 0x1010 4"
    by (simp_all add: region_def addrs_def upt_rec)
  moreover have "mem counting 0x2000 = 0" "mem counting 0x3000 = 0"
    by (simp_all add: counting_def)
  ultimately show ?thesis
    by simp
qed

text \<open>
  Claim C8, amended. The state of the model is the memory and the lock table: the source
  calls no allocator, and the state has none. An operation that returns leaves the lock
  table as it found it (the slot it took is released again) and changes no byte outside
  the object it is aimed at and the caller's buffer it reports through: the destination
  of a load or store, \<open>ptr\<close> and \<open>old\<close> of an exchange, the object of a sized store,
  exchange or fetch-and-op. A compare-exchange that succeeds changes no byte outside
  \<open>ptr\<close>, one that fails no byte outside \<open>expected\<close>. A sized load changes nothing.
\<close>

theorem operations_frame:
  fixes v :: "'a::len word"
  shows
    "(atomic_load_c P sz p q m s = Some s1 \<longrightarrow>
        locks s1 = locks s \<and> (\<forall>a. a \<notin> region q (size_t sz) \<longrightarrow> mem s1 a = mem s a))
   \<and> (atomic_store_c P sz p q m s = Some s2 \<longrightarrow>
        locks s2 = locks s \<and> (\<forall>a. a \<notin> region p (size_t sz) \<longrightarrow> mem s2 a = mem s a))
   \<and> (atomic_compare_exchange_c P sz p q d m m' s = Some (r3, s3) \<longrightarrow>
        locks s3 = locks s
        \<and> (r3 \<noteq> 0 \<longrightarrow> (\<forall>a. a \<notin> region p (size_t sz) \<longrightarrow> mem s3 a = mem s a))
        \<and> (r3 = 0 \<longrightarrow> (\<forall>a. a \<notin> region q (size_t sz) \<longrightarrow> mem s3 a = mem s a)))
   \<and> (atomic_exchange_c P sz p q d m s = Some s4 \<longrightarrow>
        locks s4 = locks s
        \<and> (\<forall>a. a \<notin> region p (size_t sz) \<union> region d (size_t sz) \<longrightarrow> mem s4 a = mem s a))
   \<and> (atomic_load_N P p m s = Some (r5 :: 'a word, s5) \<longrightarrow> s5 = s)
   \<and> (atomic_store_N P p v m s = Some s6 \<longrightarrow>
        locks s6 = locks s \<and> (\<forall>a. a \<notin> region p (LENGTH('a) div 8) \<longrightarrow> mem s6 a = mem s a))
   \<and> (atomic_exchange_N P p v m s = Some (r7, s7) \<longrightarrow>
        locks s7 = locks s \<and> (\<forall>a. a \<notin> region p (LENGTH('a) div 8) \<longrightarrow> mem s7 a = mem s a))
   \<and> (atomic_compare_exchange_N P p q v m m' s = Some (r8, s8) \<longrightarrow>
        locks s8 = locks s
        \<and> (r8 \<longrightarrow> (\<forall>a. a \<notin> region p (LENGTH('a) div 8) \<longrightarrow> mem s8 a = mem s a))
        \<and> (\<not> r8 \<longrightarrow> (\<forall>a. a \<notin> region q (LENGTH('a) div 8) \<longrightarrow> mem s8 a = mem s a)))
   \<and> (atomic_fetch_N P opn p v m s = Some (r9, s9) \<longrightarrow>
        locks s9 = locks s \<and> (\<forall>a. a \<notin> region p (LENGTH('a) div 8) \<longrightarrow> mem s9 a = mem s a))"
proof (intro conjI impI)
  assume "atomic_load_c P sz p q m s = Some s1"
  then have "s1 = memcpy q p (size_t sz) s"
    by (rule atomic_load_c_Some)
  then show "locks s1 = locks s" "\<forall>a. a \<notin> region q (size_t sz) \<longrightarrow> mem s1 a = mem s a"
    by (simp_all add: mem_memcpy_other)
next
  assume "atomic_store_c P sz p q m s = Some s2"
  then have "s2 = memcpy p q (size_t sz) s"
    by (rule atomic_store_c_Some)
  then show "locks s2 = locks s" "\<forall>a. a \<notin> region p (size_t sz) \<longrightarrow> mem s2 a = mem s a"
    by (simp_all add: mem_memcpy_other)
next
  assume "atomic_compare_exchange_c P sz p q d m m' s = Some (r3, s3)"
  then have c: "r3 = 1 \<and> s3 = memcpy p d (size_t sz) s
      \<or> r3 = 0 \<and> (s3 = memcpy q p (size_t sz) s \<or> s3 = s)"
    by (rule atomic_compare_exchange_c_result)
  then show "locks s3 = locks s"
    by auto
  { assume "r3 \<noteq> 0"
    with c show "\<forall>a. a \<notin> region p (size_t sz) \<longrightarrow> mem s3 a = mem s a"
      by (auto simp: mem_memcpy_other) }
  { assume "r3 = 0"
    with c show "\<forall>a. a \<notin> region q (size_t sz) \<longrightarrow> mem s3 a = mem s a"
      by (auto simp: mem_memcpy_other) }
next
  assume "atomic_exchange_c P sz p q d m s = Some s4"
  then show "locks s4 = locks s"
      "\<forall>a. a \<notin> region p (size_t sz) \<union> region d (size_t sz) \<longrightarrow> mem s4 a = mem s a"
    using atomic_exchange_c_Some [of P sz p q d m s s4] by simp_all
next
  assume "atomic_load_N P p m s = Some (r5, s5)"
  then show "s5 = s"
    by (rule sized_Some)
next
  assume "atomic_store_N P p v m s = Some s6"
  then have "s6 = assign P p v s"
    by (rule sized_Some)
  then show "locks s6 = locks s" "\<forall>a. a \<notin> region p (LENGTH('a) div 8) \<longrightarrow> mem s6 a = mem s a"
    by (simp_all add: mem_assign_other)
next
  assume "atomic_exchange_N P p v m s = Some (r7, s7)"
  then have "s7 = assign P p v s"
    by (rule sized_Some)
  then show "locks s7 = locks s" "\<forall>a. a \<notin> region p (LENGTH('a) div 8) \<longrightarrow> mem s7 a = mem s a"
    by (simp_all add: mem_assign_other)
next
  assume "atomic_compare_exchange_N P p q v m m' s = Some (r8, s8)"
  then have c: "r8 \<and> s8 = assign P p v s
      \<or> \<not> r8 \<and> (s8 = assign P q (deref P s p :: 'a word) s \<or> s8 = s)"
    by (rule atomic_compare_exchange_N_result)
  then show "locks s8 = locks s"
    by auto
  { assume "r8"
    with c show "\<forall>a. a \<notin> region p (LENGTH('a) div 8) \<longrightarrow> mem s8 a = mem s a"
      by (auto simp: mem_assign_other) }
  { assume "\<not> r8"
    with c show "\<forall>a. a \<notin> region q (LENGTH('a) div 8) \<longrightarrow> mem s8 a = mem s a"
      by (auto simp: mem_assign_other) }
next
  assume "atomic_fetch_N P opn p v m s = Some (r9, s9)"
  then have "s9 = assign P p (rmw opn r9 v) s"
    by (rule sized_Some)
  then show "locks s9 = locks s" "\<forall>a. a \<notin> region p (LENGTH('a) div 8) \<longrightarrow> mem s9 a = mem s a"
    by (simp_all add: mem_assign_other)
qed

theorem operations_frame_witness:
  "atomic_load_c locked_only 4 0x1010 0x3000 5 counting = Some (memcpy 0x3000 0x1010 4 counting)
   \<and> locks (memcpy 0x3000 0x1010 4 counting) = locks counting
   \<and> mem (memcpy 0x3000 0x1010 4 counting) 0x3004 = mem counting 0x3004
   \<and> mem (memcpy 0x3000 0x1010 4 counting) 0x1010 = mem counting 0x1010
   \<and> atomic_compare_exchange_c locked_only 4 0x1010 0x2000 0x3000 5 5 counting
       = Some (0, memcpy 0x2000 0x1010 4 counting)
   \<and> mem (memcpy 0x2000 0x1010 4 counting) 0x1010 = mem counting 0x1010
   \<and> atomic_compare_exchange_c locked_only 4 0x1010 0x2010 0x3000 5 5 counting
       = Some (1, memcpy 0x1010 0x3000 4 counting)
   \<and> mem (memcpy 0x1010 0x3000 4 counting) 0x2010 = mem counting 0x2010
   \<and> atomic_fetch_N clang_le fetch_add 0x1000 (1 :: 16 word) 5 counting
       = Some (0x100, assign clang_le 0x1000 (0x101 :: 16 word) counting)
   \<and> mem (assign clang_le 0x1000 (0x101 :: 16 word) counting) 0x1002 = mem counting 0x1002"
proof -
  have l: "locks counting (lock_for_pointer 0x1010) = 0" "locks counting (lock_for_pointer 0x1000) = 0"
    by (simp_all add: counting_def)
  have e: "atomic_load_c locked_only 4 0x1010 0x3000 5 counting
      = Some (memcpy 0x3000 0x1010 4 counting)"
    using atomic_load_c_unheld [OF l(1), of locked_only 4 "0x3000" 5] by simp
  have st: "\<not> (gnuc locked_only \<and> weak_fails locked_only \<and> LOCK_FREE_CASES locked_only 4 \<noteq> None)"
    by (simp add: locked_only_def)
  have b: "read_bytes (mem counting) 0x1010 4 = [0x10, 0x11, 0x12, 0x13]"
      "read_bytes (mem counting) 0x2000 4 = [0, 1, 2, 3]"
      "read_bytes (mem counting) 0x2010 4 = [0x10, 0x11, 0x12, 0x13]"
    by (simp_all add: counting_def read_bytes_def addrs_def upt_rec)
  have c0: "atomic_compare_exchange_c locked_only 4 0x1010 0x2000 0x3000 5 5 counting
      = Some (0, memcpy 0x2000 0x1010 4 counting)"
    using atomic_compare_exchange_c_strong [OF l(1) st, of "0x2000" "0x3000" 5 5] by (simp add: b)
  have c1: "atomic_compare_exchange_c locked_only 4 0x1010 0x2010 0x3000 5 5 counting
      = Some (1, memcpy 0x1010 0x3000 4 counting)"
    using atomic_compare_exchange_c_strong [OF l(1) st, of "0x2010" "0x3000" 5 5] by (simp add: b)
  have d: "deref clang_le counting 0x1000 = (0x100 :: 16 word)"
    by (simp add: deref_def counting_def clang_le_def from_bytes_def le_word_def read_bytes_def
        addrs_def upt_rec)
  have f: "atomic_fetch_N clang_le fetch_add 0x1000 (1 :: 16 word) 5 counting
      = Some (0x100, assign clang_le 0x1000 (0x101 :: 16 word) counting)"
    using atomic_fetch_N_unheld [OF l(2), of clang_le fetch_add "1 :: 16 word" 5] by (simp add: d)
  have r: "(0x3004 :: addr) \<notin> region 0x3000 4" "(0x1010 :: addr) \<notin> region 0x3000 4"
      "(0x1002 :: addr) \<notin> region 0x1000 2" "(0x1010 :: addr) \<notin> region 0x2000 4"
      "(0x2010 :: addr) \<notin> region 0x1010 4"
    by (simp_all add: region_def addrs_def upt_rec)
  have "locks (memcpy 0x3000 0x1010 4 counting) = locks counting
      \<and> (\<forall>a. a \<notin> region 0x3000 (size_t 4)
            \<longrightarrow> mem (memcpy 0x3000 0x1010 4 counting) a = mem counting a)"
    by (rule operations_frame [where ?'a = 16 and P = locked_only and sz = 4 and p = "0x1010"
        and q = "0x3000" and m = 5 and s = counting
        and ?s1.0 = "memcpy 0x3000 0x1010 4 counting", THEN conjunct1, THEN mp, OF e])
  moreover have "locks (memcpy 0x2000 0x1010 4 counting) = locks counting
      \<and> ((0 :: int) \<noteq> 0 \<longrightarrow> (\<forall>a. a \<notin> region 0x1010 (size_t 4)
            \<longrightarrow> mem (memcpy 0x2000 0x1010 4 counting) a = mem counting a))
      \<and> ((0 :: int) = 0 \<longrightarrow> (\<forall>a. a \<notin> region 0x2000 (size_t 4)
            \<longrightarrow> mem (memcpy 0x2000 0x1010 4 counting) a = mem counting a))"
    by (rule operations_frame [where ?'a = 16 and P = locked_only and sz = 4 and p = "0x1010"
        and q = "0x2000" and d = "0x3000" and m = 5 and m' = 5 and s = counting and ?r3.0 = 0
        and ?s3.0 = "memcpy 0x2000 0x1010 4 counting",
        THEN conjunct2, THEN conjunct2, THEN conjunct1, THEN mp, OF c0])
  moreover have "locks (memcpy 0x1010 0x3000 4 counting) = locks counting
      \<and> ((1 :: int) \<noteq> 0 \<longrightarrow> (\<forall>a. a \<notin> region 0x1010 (size_t 4)
            \<longrightarrow> mem (memcpy 0x1010 0x3000 4 counting) a = mem counting a))
      \<and> ((1 :: int) = 0 \<longrightarrow> (\<forall>a. a \<notin> region 0x2010 (size_t 4)
            \<longrightarrow> mem (memcpy 0x1010 0x3000 4 counting) a = mem counting a))"
    by (rule operations_frame [where ?'a = 16 and P = locked_only and sz = 4 and p = "0x1010"
        and q = "0x2010" and d = "0x3000" and m = 5 and m' = 5 and s = counting and ?r3.0 = 1
        and ?s3.0 = "memcpy 0x1010 0x3000 4 counting",
        THEN conjunct2, THEN conjunct2, THEN conjunct1, THEN mp, OF c1])
  moreover have "locks (assign clang_le 0x1000 (0x101 :: 16 word) counting) = locks counting
      \<and> (\<forall>a. a \<notin> region 0x1000 (LENGTH(16) div 8)
            \<longrightarrow> mem (assign clang_le 0x1000 (0x101 :: 16 word) counting) a = mem counting a)"
    by (rule operations_frame [where ?'a = 16 and P = clang_le and p = "0x1000"
        and opn = fetch_add and v = 1 and m = 5 and s = counting and ?r9.0 = "0x100"
        and ?s9.0 = "assign clang_le 0x1000 (0x101 :: 16 word) counting",
        THEN conjunct2, THEN conjunct2, THEN conjunct2, THEN conjunct2, THEN conjunct2,
        THEN conjunct2, THEN conjunct2, THEN conjunct2, THEN mp, OF f])
  ultimately show ?thesis
    using e c0 c1 f r by simp
qed

section \<open>The OS version check is lexicographic\<close>

text \<open>
  Claim C10. \<^verbatim>\<open>__isOSVersionAtLeast\<close> returns 1 when the queried triple, as signed
  integers, is lexicographically at most the triple the globals hold once the function
  has populated them, and 0 otherwise.
\<close>

theorem isOSVersionAtLeast_lexicographic:
  "fst (isOSVersionAtLeast has_dispatch scanned Major Minor Subminor g) =
     (let g' = snd (isOSVersionAtLeast has_dispatch scanned Major Minor Subminor g)
      in if (sint Major, sint Minor, sint Subminor)
            \<le> (sint (GlobalMajor g'), sint (GlobalMinor g'), sint (GlobalSubminor g'))
         then 1 else 0)"
  by (auto simp add: isOSVersionAtLeast_def Let_def word_sless_alt word_sle_eq
      less_eq_prod_simp)

theorem isOSVersionAtLeast_lexicographic_witness:
  "fst (isOSVersionAtLeast False [10, 6, 8] 10 5 9
      \<lparr>GlobalMajor = 0, GlobalMinor = 0, GlobalSubminor = 0, DispatchOnceCounter = False\<rparr>) = 1
   \<and> fst (isOSVersionAtLeast True [10, 6, 8] 10 7 0
      \<lparr>GlobalMajor = 0, GlobalMinor = 0, GlobalSubminor = 0, DispatchOnceCounter = False\<rparr>) = 0"
proof -
  let ?g = "\<lparr>GlobalMajor = 0, GlobalMinor = 0, GlobalSubminor = 0, DispatchOnceCounter = False\<rparr>"
  have "snd (isOSVersionAtLeast False [10, 6, 8] 10 5 9 ?g)
      = \<lparr>GlobalMajor = 10, GlobalMinor = 6, GlobalSubminor = 8, DispatchOnceCounter = False\<rparr>"
    by (simp add: isOSVersionAtLeast_def parseSystemVersionPList_def)
  moreover have "snd (isOSVersionAtLeast True [10, 6, 8] 10 7 0 ?g)
      = \<lparr>GlobalMajor = 10, GlobalMinor = 6, GlobalSubminor = 8, DispatchOnceCounter = True\<rparr>"
    by (simp add: isOSVersionAtLeast_def parseSystemVersionPList_def dispatch_once_f_def)
  ultimately show ?thesis
    using isOSVersionAtLeast_lexicographic [of False "[10, 6, 8]" 10 5 9 ?g]
      isOSVersionAtLeast_lexicographic [of True "[10, 6, 8]" 10 7 0 ?g]
    by (simp add: less_eq_prod_simp)
qed

section \<open>Sized and generic entry points\<close>

lemma horner_sum_bytes_bound:
  "0 \<le> horner_sum uint 256 (xs :: byte list) \<and> horner_sum uint 256 xs < 256 ^ length xs"
proof (induction xs)
  case Nil
  then show ?case by simp
next
  case (Cons x xs)
  have "uint x < 256"
    using uint_bounded [of x] by simp
  moreover have "0 \<le> uint x"
    by simp
  ultimately show ?case
    using Cons by simp
qed

lemma unat_le_word:
  assumes "LENGTH('a) = 8 * length xs"
  shows "unat (le_word xs :: 'a::len word) = nat (horner_sum uint 256 xs)"
proof -
  have "(256 :: int) ^ length xs = 2 ^ LENGTH('a)"
    by (simp add: assms power_mult)
  then have "horner_sum uint 256 xs < 2 ^ LENGTH('a)" "0 \<le> horner_sum uint 256 xs"
    using horner_sum_bytes_bound [of xs] by simp_all
  then have "uint (word_of_int (horner_sum uint 256 xs) :: 'a word) = horner_sum uint 256 xs"
    by (simp add: uint_word_of_int)
  then show ?thesis
    by (simp only: le_word_def unat_eq_nat_uint)
qed

lemma unat_from_bytes:
  assumes "LENGTH('a) = 8 * length bs"
  shows "unat (from_bytes P bs :: 'a::len word) = unsigned P bs"
  using assms by (simp add: from_bytes_def unsigned_def unat_le_word)

lemma le_bytes_unat:
  assumes "LENGTH('a) = 8 * n"
  shows "le_bytes (w :: 'a::len word) = map (\<lambda>i. of_nat (unat w div 256 ^ i mod 256)) [0..<n]"
proof -
  have "(ucast (drop_bit (8 * i) w) :: byte) = of_nat (unat w div 256 ^ i mod 256)" for i
  proof (rule bit_word_eqI)
    fix j assume "j < LENGTH(8)"
    have "(256 :: nat) ^ i = 2 ^ (8 * i)" "(256 :: nat) = 2 ^ 8"
      by (simp_all add: power_mult)
    then have "unat w div 256 ^ i mod 256 = take_bit 8 (drop_bit (8 * i) (unat w))"
      by (simp only: take_bit_eq_mod drop_bit_eq_div)
    then show "bit (ucast (drop_bit (8 * i) w) :: byte) j
        = bit (of_nat (unat w div 256 ^ i mod 256) :: byte) j"
      by (simp add: bit_simps)
  qed
  then show ?thesis
    using assms by (simp add: le_bytes_def)
qed

lemma to_bytes_unat:
  assumes "LENGTH('a) = 8 * n"
  shows "to_bytes P (w :: 'a::len word) = unsigned_bytes P n (unat w)"
  by (simp add: to_bytes_def unsigned_bytes_def le_bytes_unat [OF assms])


lemma LOCK_FREE_CASES_sized:
  "n \<in> {1, 2, 4, 8, 16} \<Longrightarrow> LOCK_FREE_CASES P (int n) = None \<longleftrightarrow> \<not> IS_LOCK_FREE P n"
  by (auto simp: LOCK_FREE_CASES_None IS_LOCK_FREE_def)

lemma size_t_int: "n \<in> {1, 2, 4, 8, 16} \<Longrightarrow> size_t (int n) = n"
  by auto

lemma deref_unlock [simp]: "deref P (unlock l s) p = deref P s p"
  by (simp add: deref_def)

lemma assign_unlock: "assign P p v (unlock l s) = unlock l (assign P p v s)"
  by (simp add: assign_def unlock_def)

lemma sized_generic_load:
  assumes "LENGTH('a) = 8 * n" and "n \<in> {1, 2, 4, 8, 16}"
  shows "atomic_load_c P (int n) src dest model s =
     map_option (\<lambda>(v, s'). assign P dest (v :: 'a::len word) s') (atomic_load_N P src model s)"
proof (cases "LOCK_FREE_CASES P (int n)")
  case None
  then have f: "\<not> IS_LOCK_FREE P (LENGTH('a) div 8)"
    using assms by (simp add: LOCK_FREE_CASES_sized)
  show ?thesis
  proof (cases "locks s (lock_for_pointer src) = 0")
    case True
    then show ?thesis
      using assms
      by (simp add: atomic_load_c_unheld atomic_load_N_unheld assign_deref size_t_int)
  next
    case False
    then show ?thesis
      using generic_slow(1) [of "int n" P src dest model s] sized_slow(1) [OF f, of src model s]
        None
      by (simp add: LOCK_FREE_CASES_None)
  qed
next
  case (Some ty)
  then have f: "IS_LOCK_FREE P (LENGTH('a) div 8)"
    using assms LOCK_FREE_CASES_sized [of n P] by simp
  show ?thesis
    using assms f Some
    by (simp add: atomic_load_c_def load_LOCK_FREE_ACTION_memcpy atomic_load_N_def
        c11_atomic_load_def assign_deref size_t_int)
qed

lemma sized_generic_store:
  assumes "LENGTH('a) = 8 * n" and "n \<in> {1, 2, 4, 8, 16}"
  shows "atomic_store_c P (int n) dest src model s =
     atomic_store_N P dest (deref P s src :: 'a::len word) model s"
proof (cases "LOCK_FREE_CASES P (int n)")
  case None
  then have f: "\<not> IS_LOCK_FREE P (LENGTH('a) div 8)"
    using assms by (simp add: LOCK_FREE_CASES_sized)
  show ?thesis
  proof (cases "locks s (lock_for_pointer dest) = 0")
    case True
    then show ?thesis
      using assms
      by (simp add: atomic_store_c_unheld atomic_store_N_unheld assign_deref size_t_int)
  next
    case False
    then show ?thesis
      using generic_slow(2) [of "int n" P dest src model s]
        sized_slow(2) [OF f, of dest "deref P s src" model s] None
      by (simp add: LOCK_FREE_CASES_None)
  qed
next
  case (Some ty)
  then have f: "IS_LOCK_FREE P (LENGTH('a) div 8)"
    using assms LOCK_FREE_CASES_sized [of n P] by simp
  show ?thesis
    using assms f Some
    by (simp add: atomic_store_c_def store_LOCK_FREE_ACTION_memcpy atomic_store_N_def
        c11_atomic_store_def assign_deref size_t_int)
qed

lemma sized_generic_exchange:
  assumes "LENGTH('a) = 8 * n" and "n \<in> {1, 2, 4, 8, 16}"
      and "region old n \<inter> region ptr n = {}" and "region old n \<inter> region val n = {}"
  shows "atomic_exchange_c P (int n) ptr val old model s =
     map_option (\<lambda>(tmp, s'). assign P old (tmp :: 'a::len word) s')
       (atomic_exchange_N P ptr (deref P s val :: 'a word) model s)"
proof -
  have b: "assign P old (deref P s ptr :: 'a word) (assign P ptr (deref P s val :: 'a word) s)
      = s\<lparr>mem := write_bytes (write_bytes (mem s) ptr (read_bytes (mem s) val n)) old
                (read_bytes (mem s) ptr n)\<rparr>"
    by (simp add: assign_deref [OF assms(1)] memcpy_def assign_def to_bytes_deref [OF assms(1)])
  show ?thesis
  proof (cases "LOCK_FREE_CASES P (int n)")
    case None
    then have f: "\<not> IS_LOCK_FREE P (LENGTH('a) div 8)"
      using assms by (simp add: LOCK_FREE_CASES_sized)
    show ?thesis
    proof (cases "locks s (lock_for_pointer ptr) = 0")
      case True
      then show ?thesis
        using assms
        by (simp add: atomic_exchange_c_unheld atomic_exchange_N_unheld size_t_int b
            exchange_slow_bytes)
    next
      case False
      then show ?thesis
        using generic_slow(4) [of "int n" P ptr val old model s]
          sized_slow(3) [OF f, of ptr "deref P s val" model s] None
        by (simp add: LOCK_FREE_CASES_None)
    qed
  next
    case (Some ty)
    then have f: "IS_LOCK_FREE P (LENGTH('a) div 8)"
      using assms LOCK_FREE_CASES_sized [of n P] by simp
    show ?thesis
      using assms f Some
      by (simp add: atomic_exchange_c_def exchange_LOCK_FREE_ACTION_bytes atomic_exchange_N_def
          c11_atomic_exchange_def size_t_int b)
  qed
qed

lemma sized_generic_compare_exchange:
  assumes "LENGTH('a) = 8 * n" and "n \<in> {1, 2, 4, 8, 16}"
  shows "atomic_compare_exchange_c P (int n) ptr expected desired success failure s =
     map_option (\<lambda>(b, s'). (if b then 1 else 0, s'))
       (atomic_compare_exchange_N P ptr expected (deref P s desired :: 'a::len word)
          success failure s)"
proof (cases "LOCK_FREE_CASES P (int n)")
  case None
  then have f: "\<not> IS_LOCK_FREE P (LENGTH('a) div 8)"
    using assms by (simp add: LOCK_FREE_CASES_sized)
  show ?thesis
  proof (cases "locks s (lock_for_pointer ptr) = 0")
    case True
    then show ?thesis
      using assms None f
      by (simp add: atomic_compare_exchange_c_strong atomic_compare_exchange_N_strong
          c11_strong_bytes size_t_int)
  next
    case False
    then show ?thesis
      using generic_slow(3) [of "int n" P ptr expected desired success failure s]
        sized_slow(4) [OF f, of ptr expected "deref P s desired" success failure s] None
      by (simp add: LOCK_FREE_CASES_None)
  qed
next
  case (Some ty)
  then have f: "IS_LOCK_FREE P (LENGTH('a) div 8)"
    using assms LOCK_FREE_CASES_sized [of n P] by simp
  show ?thesis
    using assms f Some
    by (simp add: atomic_compare_exchange_c_def compare_exchange_LOCK_FREE_ACTION_bytes
        atomic_compare_exchange_N_def builtin_weak_bytes c11_strong_bytes size_t_int)
qed

lemma fetch_step:
  assumes "LENGTH('a) = 8 * n"
  shows "unsigned P (read_bytes (mem s) ptr n) = unat (deref P s ptr :: 'a::len word)"
    and "s\<lparr>mem := write_bytes (mem s) ptr
           (unsigned_bytes P n (unsigned_op opn n (unat (deref P s ptr :: 'a word)) (unat val)))\<rparr>
         = assign P ptr (rmw opn (deref P s ptr) (val :: 'a word)) s"
proof -
  have n: "LENGTH('a) div 8 = n"
    using assms by simp
  show "unsigned P (read_bytes (mem s) ptr n) = unat (deref P s ptr :: 'a word)"
    using assms by (simp add: deref_def n unat_from_bytes)
  show "s\<lparr>mem := write_bytes (mem s) ptr
           (unsigned_bytes P n (unsigned_op opn n (unat (deref P s ptr :: 'a word)) (unat val)))\<rparr>
         = assign P ptr (rmw opn (deref P s ptr) (val :: 'a word)) s"
    by (simp only: unat_rmw [OF assms, symmetric] to_bytes_unat [OF assms, symmetric] assign_def)
qed

lemma sized_spec_fetch:
  assumes "LENGTH('a) = 8 * n" and "n \<in> {1, 2, 4, 8, 16}"
  shows "map_option (\<lambda>(old, s'). (unat old, s'))
           (atomic_fetch_N P opn ptr (val :: 'a::len word) model s)
         = spec_fetch_op P opn n ptr (unat val) s"
proof -
  have n: "LENGTH('a) div 8 = n"
    using assms by simp
  have i: "IS_LOCK_FREE P n \<longleftrightarrow> n \<in> {1, 2, 4, 8} \<and> is_lock_free P n"
    using assms(2) by (rule IS_LOCK_FREE_iff)
  show ?thesis
  proof (cases "IS_LOCK_FREE P n")
    case True
    with i have t: "n \<in> {1, 2, 4, 8} \<and> is_lock_free P n"
      by simp
    have "spec_fetch_op P opn n ptr (unat val) s
        = Some (unat (deref P s ptr :: 'a word), assign P ptr (rmw opn (deref P s ptr) val) s)"
      unfolding spec_fetch_op_def Let_def using t
      by (simp only: fetch_step [OF assms(1)]) simp
    then show ?thesis
      using True by (simp add: atomic_fetch_N_def n c11_atomic_fetch_def)
  next
    case False
    with i have t: "\<not> (n \<in> {1, 2, 4, 8} \<and> is_lock_free P n)"
      by simp
    have "spec_fetch_op P opn n ptr (unat val) s
        = (case lock (lock_for_pointer ptr) s of None \<Rightarrow> None
           | Some s \<Rightarrow> Some (unat (deref P s ptr :: 'a word),
               unlock (lock_for_pointer ptr) (assign P ptr (rmw opn (deref P s ptr) val) s)))"
      unfolding spec_fetch_op_def Let_def using t
      by (simp only: fetch_step [OF assms(1)]) (simp split: option.split)
    then show ?thesis
      using False by (simp add: atomic_fetch_N_def n Let_def split: option.split)
  qed
qed


text \<open>
  For each width \<open>n\<close> in 1, 2, 4, 8, 16 the sized entry point does what the generic one
  does at the literal size \<open>n\<close>, the values the generic call passes through memory being
  those the sized call passes by value: a generic load is the sized load followed by
  storing its result at \<open>dest\<close>; a generic store or compare-exchange is the sized one on
  the value found at \<open>src\<close> or \<open>desired\<close>, with the same result and the same final state;
  a generic exchange is the sized one on the value at \<open>val\<close> followed by storing its
  result at \<open>old\<close>, when \<open>old\<close> overlaps neither \<open>ptr\<close> nor \<open>val\<close>. The source has no
  fetch-and-op that takes a size; the sized ones are compared with \<open>spec_fetch_op\<close>, the
  generic operation as the specification words it.
\<close>

lemma sized_generic_agree:
  fixes val :: "'a::len word"
  assumes "LENGTH('a) = 8 * n" and "n \<in> {1, 2, 4, 8, 16}"
  shows
    "atomic_load_c P (int n) p q m s
       = map_option (\<lambda>(v, s'). assign P q (v :: 'a word) s') (atomic_load_N P p m s)
   \<and> atomic_store_c P (int n) p q m s = atomic_store_N P p (deref P s q :: 'a word) m s
   \<and> (region d n \<inter> region p n = {} \<and> region d n \<inter> region q n = {} \<longrightarrow>
        atomic_exchange_c P (int n) p q d m s
          = map_option (\<lambda>(tmp, s'). assign P d (tmp :: 'a word) s')
              (atomic_exchange_N P p (deref P s q :: 'a word) m s))
   \<and> atomic_compare_exchange_c P (int n) p q d m m' s
       = map_option (\<lambda>(b, s'). (if b then 1 else 0, s'))
           (atomic_compare_exchange_N P p q (deref P s d :: 'a word) m m' s)
   \<and> map_option (\<lambda>(old, s'). (unat old, s')) (atomic_fetch_N P opn p val m s)
       = spec_fetch_op P opn n p (unat val) s"
proof (intro conjI impI)
  show "atomic_load_c P (int n) p q m s
      = map_option (\<lambda>(v, s'). assign P q (v :: 'a word) s') (atomic_load_N P p m s)"
    using assms by (rule sized_generic_load)
  show "atomic_store_c P (int n) p q m s = atomic_store_N P p (deref P s q :: 'a word) m s"
    using assms by (rule sized_generic_store)
  show "atomic_compare_exchange_c P (int n) p q d m m' s
      = map_option (\<lambda>(b, s'). (if b then 1 else 0, s'))
          (atomic_compare_exchange_N P p q (deref P s d :: 'a word) m m' s)"
    using assms by (rule sized_generic_compare_exchange)
  show "map_option (\<lambda>(old, s'). (unat old, s')) (atomic_fetch_N P opn p val m s)
      = spec_fetch_op P opn n p (unat val) s"
    using assms by (rule sized_spec_fetch)
next
  assume "region d n \<inter> region p n = {} \<and> region d n \<inter> region q n = {}"
  then show "atomic_exchange_c P (int n) p q d m s
      = map_option (\<lambda>(tmp, s'). assign P d (tmp :: 'a word) s')
          (atomic_exchange_N P p (deref P s q :: 'a word) m s)"
    using assms by (simp add: sized_generic_exchange)
qed

text \<open>
  Claim C6. The sized entry point is to do what the generic one does at the literal
  size, with the same result and the same final memory. With one buffer for the value
  and the result, and 8-byte atomics not lock-free, they part: the generic exchange of
  the 8 bytes at \<open>0x1000\<close> (0 to 7) with the buffer at \<open>0x2008\<close> (8 to 15) leaves 0 to 7
  at \<open>0x1000\<close>, while \<^verbatim>\<open>__atomic_exchange_8\<close> called with the value of that buffer
  returns the same prior value, 0 to 7 as the generic call leaves it in the buffer, and
  leaves 8 to 15 at \<open>0x1000\<close>.
\<close>

theorem sized_exchange_differs_from_generic:
  "atomic_exchange_c locked_only 8 0x1000 0x2008 0x2008 5 counting
       = Some (memcpy 0x1000 0x2008 8 (memcpy 0x2008 0x1000 8 counting))
   \<and> read_bytes (mem (memcpy 0x1000 0x2008 8 (memcpy 0x2008 0x1000 8 counting))) 0x2008 8
       = [0, 1, 2, 3, 4, 5, 6, 7]
   \<and> read_bytes (mem (memcpy 0x1000 0x2008 8 (memcpy 0x2008 0x1000 8 counting))) 0x1000 8
       = [0, 1, 2, 3, 4, 5, 6, 7]
   \<and> atomic_exchange_N locked_only 0x1000 (deref locked_only counting 0x2008 :: 64 word) 5 counting
       = Some (deref locked_only counting 0x1000,
               assign locked_only 0x1000 (deref locked_only counting 0x2008 :: 64 word) counting)
   \<and> to_bytes locked_only (deref locked_only counting 0x1000 :: 64 word)
       = [0, 1, 2, 3, 4, 5, 6, 7]
   \<and> read_bytes (mem (assign locked_only 0x1000 (deref locked_only counting 0x2008 :: 64 word)
         counting)) 0x1000 8
       = [8, 9, 10, 11, 12, 13, 14, 15]"
proof -
  let ?generic = "memcpy 0x1000 0x2008 8 (memcpy 0x2008 0x1000 8 counting)"
  let ?sized = "assign locked_only 0x1000 (deref locked_only counting 0x2008 :: 64 word) counting"
  have r: "read_bytes (mem counting) 0x1000 8 = [0, 1, 2, 3, 4, 5, 6, 7]"
      "read_bytes (mem counting) 0x2008 8 = [8, 9, 10, 11, 12, 13, 14, 15]"
    by (simp_all add: counting_def read_bytes_def addrs_def upt_rec)
  have l: "locks counting (lock_for_pointer 0x1000) = 0"
    by (simp add: counting_def)
  have c: "LOCK_FREE_CASES locked_only 8 = None"
    by (simp add: LOCK_FREE_CASES_def IS_LOCK_FREE_def locked_only_def)
  have d: "region 0x1000 8 \<inter> region 0x2008 8 = {}"
    by (simp add: region_def addrs_def upt_rec)
  have g: "atomic_exchange_c locked_only 8 0x1000 0x2008 0x2008 5 counting = Some ?generic"
    using atomic_exchange_c_locked [OF c l, of "0x2008" "0x2008" 5] by simp
  have g0: "read_bytes (mem (memcpy 0x2008 0x1000 8 counting)) 0x2008 8 = [0, 1, 2, 3, 4, 5, 6, 7]"
    using read_memcpy_same [of 8 "0x2008" "0x1000" counting] by (simp add: r)
  have g1: "read_bytes (mem ?generic) 0x1000 8 = [0, 1, 2, 3, 4, 5, 6, 7]"
    using read_memcpy_same [of 8 "0x1000" "0x2008" "memcpy 0x2008 0x1000 8 counting"]
    by (simp add: g0)
  have g2: "read_bytes (mem ?generic) 0x2008 8 = [0, 1, 2, 3, 4, 5, 6, 7]"
    using read_memcpy_other [of "0x2008" 8 "0x1000" 8 "0x2008" "memcpy 0x2008 0x1000 8 counting"] d
    by (simp add: g0 Int_commute)
  have z: "atomic_exchange_N locked_only 0x1000 (deref locked_only counting 0x2008 :: 64 word) 5
      counting = Some (deref locked_only counting 0x1000, ?sized)"
    using l by (rule atomic_exchange_N_unheld)
  have z0: "to_bytes locked_only (deref locked_only counting 0x1000 :: 64 word)
      = [0, 1, 2, 3, 4, 5, 6, 7]"
    using to_bytes_deref [where ?'a = 64 and n = 8 and P = locked_only and s = counting
        and p = "0x1000"]
    by (simp add: r)
  have "?sized = memcpy 0x1000 0x2008 8 counting"
    by (rule assign_deref) simp
  then have z1: "read_bytes (mem ?sized) 0x1000 8 = [8, 9, 10, 11, 12, 13, 14, 15]"
    using read_memcpy_same [of 8 "0x1000" "0x2008" counting] by (simp add: r)
  show ?thesis
    using g g1 g2 z z0 z1 by simp
qed

section \<open>Concurrent fetch-and-add\<close>


lemma sum_list_map_update:
  "i < length ts \<Longrightarrow>
   sum_list (map f (ts[i := t])) + f (ts ! i) = sum_list (map f ts) + (f t :: nat)"
proof (induction ts arbitrary: i)
  case Nil
  then show ?case by simp
next
  case (Cons x xs)
  then show ?case
    by (cases i) auto
qed

lemma sum_list_exclusive:
  "i < length ts \<Longrightarrow> j < length ts \<Longrightarrow> j \<noteq> i \<Longrightarrow>
   sum_list (map f ts) \<le> f (ts ! i) \<Longrightarrow> f (ts ! j) = (0 :: nat)"
proof (induction ts arbitrary: i j)
  case Nil
  then show ?case by simp
next
  case (Cons x xs)
  show ?case
  proof (cases i)
    case 0
    with Cons.prems obtain j' where j: "j = Suc j'" "j' < length xs"
      by (cases j) auto
    from 0 Cons.prems have "sum_list (map f xs) = 0"
      by simp
    then have "f (xs ! j') = 0"
      using j by simp
    with j show ?thesis by simp
  next
    case (Suc i')
    then have i': "i' < length xs"
      using Cons.prems by simp
    then have le: "f (xs ! i') \<le> sum_list (map f xs)"
      by (simp add: member_le_sum_list)
    show ?thesis
    proof (cases j)
      case 0
      then show ?thesis
        using Cons.prems Suc le by simp
    next
      case (Suc j')
      then show ?thesis
        using Cons.prems \<open>i = Suc i'\<close> Cons.IH [of i' j'] by simp
    qed
  qed
qed

lemma in_cs_simps [simp]:
  "in_cs (t\<lparr>pc := at_call\<rparr>) = 0" "in_cs (t\<lparr>pc := at_lock\<rparr>) = 0"
  "in_cs (t\<lparr>pc := at_load\<rparr>) = 1" "in_cs (t\<lparr>pc := at_store\<rparr>) = 1"
  "in_cs (t\<lparr>pc := at_unlock\<rparr>) = 1" "in_cs (t\<lparr>pc := finished\<rparr>) = 0"
  "in_cs (t\<lparr>tmp := x\<rparr>) = in_cs t" "in_cs (t\<lparr>todo := k\<rparr>) = in_cs t"
  "in_cs (t\<lparr>pc := next_call k\<rparr>) = 0"
  by (simp_all add: in_cs_def next_call_def)

lemma in_cs_pc:
  "pc t = at_call \<Longrightarrow> in_cs t = 0" "pc t = at_lock \<Longrightarrow> in_cs t = 0"
  "pc t = at_load \<Longrightarrow> in_cs t = 1" "pc t = at_store \<Longrightarrow> in_cs t = 1"
  "pc t = at_unlock \<Longrightarrow> in_cs t = 1" "pc t = finished \<Longrightarrow> in_cs t = 0"
  by (simp_all add: in_cs_def)

lemma fetch_inv_step:
  fixes val :: "'a::len word"
  assumes w: "LENGTH('a) = 8 * n" "n \<le> 16"
      and slow: "\<not> IS_LOCK_FREE P (LENGTH('a) div 8)"
      and inv: "fetch_inv P ptr val v0 N M (ts, s)"
      and i: "i < length ts"
      and step: "thread_step P fetch_add ptr val (ts ! i, s) = (t', s')"
  shows "fetch_inv P ptr val v0 N M (ts[i := t'], s')"
proof -
  let ?l = "lock_for_pointer ptr"
  let ?t = "ts ! i"
  from inv have len: "length ts = N"
    and cs: "sum_list (map in_cs ts) = (if locks s ?l = 0 then 0 else 1)"
    and v: "deref P s ptr = v0 + of_nat (sum_list (map (credit M) ts)) * val"
    and th: "\<And>j. j < length ts \<Longrightarrow>
          (pc (ts ! j) = at_store \<longrightarrow> tmp (ts ! j) = deref P s ptr)
          \<and> todo (ts ! j) \<le> M \<and> (pc (ts ! j) = finished \<longleftrightarrow> todo (ts ! j) = 0)"
    by (simp_all add: fetch_inv_def)
  note A = sum_list_map_update [OF i, of in_cs t']
  note B = sum_list_map_update [OF i, of "credit M" t']
  from th [OF i] have ti: "todo ?t \<le> M" "pc ?t = finished \<longleftrightarrow> todo ?t = 0"
      "pc ?t = at_store \<Longrightarrow> tmp ?t = deref P s ptr"
    by simp_all
  show ?thesis
  proof (cases "pc ?t")
    case at_call
    with step slow have e: "t' = ?t\<lparr>pc := at_lock\<rparr>" "s' = s"
      by (auto simp: thread_step_def)
    have "credit M t' = credit M ?t" "in_cs ?t = 0" "in_cs t' = 0"
      using at_call e by (simp_all add: credit_def in_cs_pc)
    with A B cs v th ti at_call e len i show ?thesis
      by (auto simp: fetch_inv_def nth_list_update)
  next
    case at_lock
    show ?thesis
    proof (cases "locks s ?l = 0")
      case True
      with step at_lock have e: "t' = ?t\<lparr>pc := at_load\<rparr>" "s' = s\<lparr>locks := (locks s)(?l := 1)\<rparr>"
        by (auto simp: thread_step_def)
      have "credit M t' = credit M ?t" "in_cs ?t = 0" "in_cs t' = 1"
        using at_lock e by (simp_all add: credit_def in_cs_pc)
      with A B cs v th ti at_lock e len i True show ?thesis
        by (auto simp: fetch_inv_def nth_list_update)
    next
      case False
      with step at_lock have e: "t' = ?t" "s' = s"
        by (auto simp: thread_step_def)
      with inv show ?thesis
        by simp
    qed
  next
    case at_load
    with step have e: "t' = ?t\<lparr>pc := at_store, tmp := deref P s ptr\<rparr>" "s' = s"
      by (auto simp: thread_step_def)
    have "credit M t' = credit M ?t" "in_cs ?t = 1" "in_cs t' = 1"
      using at_load e by (simp_all add: credit_def in_cs_pc)
    with A B cs v th ti at_load e len i show ?thesis
      by (auto simp: fetch_inv_def nth_list_update)
  next
    case at_store
    with step have e: "t' = ?t\<lparr>pc := at_unlock\<rparr>" "s' = assign P ptr (tmp ?t + val) s"
      by (auto simp: thread_step_def)
    have c: "credit M t' = credit M ?t + 1" "in_cs ?t = 1" "in_cs t' = 1"
      using at_store e by (simp_all add: credit_def in_cs_pc)
    have d: "deref P s' ptr = deref P s ptr + val"
      using e ti(3) [OF at_store] by (simp add: deref_assign_same [OF w])
    have "sum_list (map in_cs ts) \<le> in_cs ?t"
      using cs c by simp
    then have o: "j < length ts \<Longrightarrow> j \<noteq> i \<Longrightarrow> pc (ts ! j) \<noteq> at_store" for j
      using sum_list_exclusive [OF i, of j in_cs] in_cs_pc(4) [of "ts ! j"] by auto
    have "sum_list (map (credit M) (ts[i := t'])) = sum_list (map (credit M) ts) + 1"
      using B c by simp
    then have "deref P s' ptr = v0 + of_nat (sum_list (map (credit M) (ts[i := t']))) * val"
      using d v by (simp add: algebra_simps)
    moreover have "sum_list (map in_cs (ts[i := t'])) = sum_list (map in_cs ts)"
      using A c by simp
    moreover have "locks s' = locks s"
      using e by simp
    ultimately show ?thesis
      using cs th ti at_store e len i o
      by (auto simp: fetch_inv_def nth_list_update)
  next
    case at_unlock
    with step have e: "t' = ?t\<lparr>pc := next_call (todo ?t - 1), todo := todo ?t - 1\<rparr>"
        "s' = unlock ?l s"
      by (auto simp: thread_step_def)
    from ti at_unlock have pos: "0 < todo ?t"
      by auto
    have c: "credit M t' = credit M ?t" "in_cs ?t = 1" "in_cs t' = 0"
      using at_unlock e pos ti(1) by (auto simp: credit_def in_cs_pc next_call_def)
    have "in_cs ?t \<le> sum_list (map in_cs ts)"
      using i by (simp add: member_le_sum_list)
    with cs c have "sum_list (map in_cs ts) = 1"
      by (auto split: if_splits)
    with A c have "sum_list (map in_cs (ts[i := t'])) = 0"
      by simp
    moreover have "sum_list (map (credit M) (ts[i := t'])) = sum_list (map (credit M) ts)"
      using B c by simp
    moreover have "locks s' ?l = 0" "deref P s' ptr = deref P s ptr"
      using e by (simp_all add: unlock_def deref_def)
    moreover have "todo ?t - 1 \<le> M"
      using ti(1) by simp
    ultimately show ?thesis
      using v th ti at_unlock e len i pos
      by (auto simp: fetch_inv_def nth_list_update next_call_def)
  next
    case finished
    with step have e: "t' = ?t" "s' = s"
      by (auto simp: thread_step_def)
    with inv show ?thesis
      by simp
  qed
qed


lemma fetch_inv_run:
  fixes val :: "'a::len word"
  assumes "LENGTH('a) = 8 * n" "n \<le> 16" "\<not> IS_LOCK_FREE P (LENGTH('a) div 8)"
  shows "fetch_inv P ptr val v0 N M c \<Longrightarrow>
         fetch_inv P ptr val v0 N M (run_threads P fetch_add ptr val sched c)"
proof (induction sched arbitrary: c)
  case Nil
  then show ?case by simp
next
  case (Cons i sched)
  obtain ts s where c: "c = (ts, s)"
    by (cases c)
  show ?case
  proof (cases "i < length ts")
    case True
    obtain t' s' where st: "thread_step P fetch_add ptr val (ts ! i, s) = (t', s')"
      by (cases "thread_step P fetch_add ptr val (ts ! i, s)")
    have "fetch_inv P ptr val v0 N M (ts[i := t'], s')"
      using assms Cons.prems [unfolded c] True st by (rule fetch_inv_step)
    then have "fetch_inv P ptr val v0 N M
        (run_threads P fetch_add ptr val sched (ts[i := t'], s'))"
      by (rule Cons.IH)
    then show ?thesis
      using True st by (simp add: c)
  next
    case False
    then show ?thesis
      using Cons.IH [OF Cons.prems] by (simp add: c)
  qed
qed

lemma fetch_inv_start:
  "locks s (lock_for_pointer ptr) = 0 \<Longrightarrow>
   fetch_inv P ptr val (deref P s ptr) N M (replicate N (start M), s)"
  by (simp add: fetch_inv_def start_def next_call_def in_cs_def credit_def sum_list_replicate)

lemma sum_list_credit_finished:
  assumes "\<And>j. j < length ts \<Longrightarrow> todo (ts ! j) \<le> M \<and> (pc (ts ! j) = finished \<longleftrightarrow> todo (ts ! j) = 0)"
      and "list_all (\<lambda>t. pc t = finished) ts"
  shows "sum_list (map (credit M) ts) = length ts * M"
proof -
  have "map (credit M) ts = replicate (length ts) M"
  proof (rule nth_equalityI)
    show "length (map (credit M) ts) = length (replicate (length ts) M)"
      by simp
  next
    fix j assume "j < length (map (credit M) ts)"
    then have j: "j < length ts"
      by simp
    with assms(2) have "pc (ts ! j) = finished"
      by (simp add: list_all_length)
    with assms(1) [OF j] have "credit M (ts ! j) = M"
      by (simp add: credit_def)
    with j show "map (credit M) ts ! j = replicate (length ts) M ! j"
      by simp
  qed
  then show ?thesis
    by (simp add: sum_list_replicate)
qed

lemma concurrent_fetch_add_word:
  assumes "LENGTH('a) = 8 * n" and "n \<le> 16"
      and "\<not> IS_LOCK_FREE P n"
      and "locks s (lock_for_pointer ptr) = 0"
      and "run_threads P fetch_add ptr (1 :: 'a::len word) sched (replicate N (start M), s) = (ts', s')"
      and "list_all (\<lambda>t. pc t = finished) ts'"
  shows "(deref P s' ptr :: 'a word) = deref P s ptr + of_nat (N * M)"
proof -
  have n: "LENGTH('a) div 8 = n"
    using assms(1) by simp
  have "fetch_inv P ptr 1 (deref P s ptr :: 'a word) N M (replicate N (start M), s)"
    using assms(4) by (rule fetch_inv_start)
  then have "fetch_inv P ptr 1 (deref P s ptr :: 'a word) N M
      (run_threads P fetch_add ptr 1 sched (replicate N (start M), s))"
    using assms(1,2,3) n by (intro fetch_inv_run) simp_all
  then have inv: "fetch_inv P ptr 1 (deref P s ptr :: 'a word) N M (ts', s')"
    by (simp only: assms(5))
  then have "sum_list (map (credit M) ts') = length ts' * M"
    using assms(6) by (intro sum_list_credit_finished) (simp_all add: fetch_inv_def)
  with inv show ?thesis
    by (simp add: fetch_inv_def)
qed

lemma run_threads_append:
  "run_threads P opn ptr val (a @ b) c = run_threads P opn ptr val b (run_threads P opn ptr val a c)"
  by (induction a arbitrary: c) (auto simp: Let_def split: prod.splits)

text \<open>One thread alone: the five steps of a call are the sequential operation.\<close>

lemma solo_call:
  fixes val :: "'a::len word"
  assumes "\<not> IS_LOCK_FREE P (LENGTH('a) div 8)" and "locks s (lock_for_pointer ptr) = 0"
      and "pc t = at_call"
  shows "run_threads P opn ptr val [0, 0, 0, 0, 0] ([t], s) =
     ([t\<lparr>pc := next_call (todo t - 1), tmp := deref P s ptr, todo := todo t - 1\<rparr>],
      assign P ptr (rmw opn (deref P s ptr) val) s)"
  using assms by (simp add: thread_step_def unlock_def assign_def fun_upd_idem)

lemma solo_call_is_fetch:
  fixes val :: "'a::len word"
  assumes "\<not> IS_LOCK_FREE P (LENGTH('a) div 8)" and "locks s (lock_for_pointer ptr) = 0"
      and "pc t = at_call"
      and "run_threads P opn ptr val [0, 0, 0, 0, 0] ([t], s) = ([t'], s')"
  shows "atomic_fetch_N P opn ptr val model s = Some (tmp t', s')"
proof -
  have "([t'], s') =
     ([t\<lparr>pc := next_call (todo t - 1), tmp := deref P s ptr, todo := todo t - 1\<rparr>],
      assign P ptr (rmw opn (deref P s ptr) val) s)"
    unfolding assms(4) [symmetric] by (rule solo_call [OF assms(1,2,3)])
  then show ?thesis
    by (simp add: atomic_fetch_N_unheld [OF assms(2)])
qed

lemma thread_updates:
  "t\<lparr>tmp := b, pc := a, todo := c\<rparr> = \<lparr>pc = a, tmp = b, todo = c\<rparr>"
  by (cases t) simp

lemma solo_call_at:
  fixes val :: "'a::len word"
  assumes "\<not> IS_LOCK_FREE P (LENGTH('a) div 8)" and "locks s (lock_for_pointer ptr) = 0"
      and "i < length ts" and "pc (ts ! i) = at_call"
  shows "run_threads P opn ptr val [i, i, i, i, i] (ts, s) =
     (ts[i := \<lparr>pc = next_call (todo (ts ! i) - 1), tmp = deref P s ptr,
               todo = todo (ts ! i) - 1\<rparr>],
      assign P ptr (rmw opn (deref P s ptr) val) s)"
  using assms by (simp add: thread_step_def unlock_def assign_def fun_upd_idem thread_updates)

lemma solo_run_at:
  fixes val :: "'a::len word"
  assumes "\<not> IS_LOCK_FREE P (LENGTH('a) div 8)"
  shows "locks s (lock_for_pointer ptr) = 0 \<Longrightarrow> i < length ts \<Longrightarrow>
     pc (ts ! i) = next_call k \<Longrightarrow> todo (ts ! i) = k \<Longrightarrow>
     \<exists>t' s'. run_threads P opn ptr val (concat (replicate k [i, i, i, i, i])) (ts, s)
                = (ts[i := t'], s')
       \<and> pc t' = finished \<and> locks s' (lock_for_pointer ptr) = 0"
proof (induction k arbitrary: ts s)
  case 0
  then have "ts[i := ts ! i] = ts" "pc (ts ! i) = finished"
    by (simp_all add: next_call_def)
  with 0 show ?case
    by (intro exI [of _ "ts ! i"] exI [of _ s]) simp
next
  case (Suc k)
  let ?t = "\<lparr>pc = next_call (todo (ts ! i) - 1), tmp = deref P s ptr,
      todo = todo (ts ! i) - 1\<rparr>"
  let ?s = "assign P ptr (rmw opn (deref P s ptr) val) s"
  from Suc.prems have c: "pc (ts ! i) = at_call"
    by (simp add: next_call_def)
  have r: "run_threads P opn ptr val (concat (replicate (Suc k) [i, i, i, i, i])) (ts, s)
      = run_threads P opn ptr val (concat (replicate k [i, i, i, i, i])) (ts[i := ?t], ?s)"
    using solo_call_at [OF assms Suc.prems(1,2) c, of opn val]
    by (simp only: replicate_Suc concat.simps run_threads_append)
  have "\<exists>t' s'. run_threads P opn ptr val (concat (replicate k [i, i, i, i, i])) (ts[i := ?t], ?s)
        = (ts[i := ?t, i := t'], s')
      \<and> pc t' = finished \<and> locks s' (lock_for_pointer ptr) = 0"
    using Suc.prems by (intro Suc.IH) simp_all
  then show ?case
    by (simp only: r list_update_overwrite)
qed

text \<open>
  Claim C9. \<open>N\<close> threads each call \<^verbatim>\<open>__atomic_fetch_add_n(ptr, 1)\<close> \<open>M\<close> times on a location
  whose size is not lock-free. A schedule names the thread that takes the next step;
  a step is one statement of the slow path. Whatever the schedule, once every thread
  has returned from its last call the location holds its initial value plus \<open>N * M\<close>,
  modulo \<open>2 ^ (8 * n)\<close>.
\<close>

theorem concurrent_fetch_add:
  assumes "LENGTH('a) = 8 * n" and "n \<in> {1, 2, 4, 8, 16}"
      and "\<not> IS_LOCK_FREE P n"
      and "locks s (lock_for_pointer ptr) = 0"
      and "run_threads P fetch_add ptr (1 :: 'a::len word) sched (replicate N (start M), s) = (ts', s')"
      and "list_all (\<lambda>t. pc t = finished) ts'"
  shows "unat (deref P s' ptr :: 'a word)
           = (unat (deref P s ptr :: 'a word) + N * M) mod 2 ^ (8 * n)"
proof -
  have n: "n \<le> 16"
    using assms(2) by auto
  have "(deref P s' ptr :: 'a word) = deref P s ptr + of_nat (N * M)"
    using assms(1) n assms(3-6) by (rule concurrent_fetch_add_word)
  then have "unat (deref P s' ptr :: 'a word)
      = (unat (deref P s ptr :: 'a word) + N * M mod 2 ^ LENGTH('a)) mod 2 ^ LENGTH('a)"
    by (simp only: unat_word_ariths unat_of_nat)
  then show ?thesis
    by (simp add: assms(1) mod_add_right_eq)
qed


theorem concurrent_fetch_add_witness:
  "list_all (\<lambda>t. pc t = finished)
     (fst (run_threads locked_only fetch_add 0x1000 (1 :: 16 word)
        [0, 1, 0, 1, 0, 1, 0, 0, 1, 1, 1, 1] (replicate 2 (start 1), zeroed)))
   \<and> unat (deref locked_only
        (snd (run_threads locked_only fetch_add 0x1000 (1 :: 16 word)
           [0, 1, 0, 1, 0, 1, 0, 0, 1, 1, 1, 1] (replicate 2 (start 1), zeroed))) 0x1000 :: 16 word)
     = 2"
proof -
  let ?r = "run_threads locked_only fetch_add 0x1000 (1 :: 16 word)
      [0, 1, 0, 1, 0, 1, 0, 0, 1, 1, 1, 1] (replicate 2 (start 1), zeroed)"
  have f: "list_all (\<lambda>t. pc t = finished) (fst ?r)"
    by (simp add: numeral_2_eq_2 thread_step_def start_def next_call_def IS_LOCK_FREE_def
        locked_only_def zeroed_def unlock_def assign_def Let_def)
  have z: "deref locked_only zeroed 0x1000 = (0 :: 16 word)"
    by (simp add: deref_def zeroed_def locked_only_def from_bytes_def le_word_def read_bytes_def
        addrs_def upt_rec)
  have "unat (deref locked_only (snd ?r) 0x1000 :: 16 word)
      = (unat (deref locked_only zeroed 0x1000 :: 16 word) + 2 * 1) mod 2 ^ (8 * 2)"
    using f
    by (intro concurrent_fetch_add [where sched = "[0, 1, 0, 1, 0, 1, 0, 0, 1, 1, 1, 1]"
          and ts' = "fst ?r"])
      (simp_all add: IS_LOCK_FREE_def locked_only_def zeroed_def)
  with f show ?thesis
    by (simp add: z)
qed

text \<open>
  The sum wraps: two threads that each add 1 to a zeroed byte 128 times return from
  every call and leave 0, not 256.
\<close>

theorem concurrent_fetch_add_wraps:
  "unat (deref locked_only zeroed 0x1000 :: 8 word) = 0
   \<and> list_all (\<lambda>t. pc t = finished)
       (fst (run_threads locked_only fetch_add 0x1000 (1 :: 8 word)
          (concat (replicate 128 [0, 0, 0, 0, 0]) @ concat (replicate 128 [1, 1, 1, 1, 1]))
          (replicate 2 (start 128), zeroed)))
   \<and> unat (deref locked_only
        (snd (run_threads locked_only fetch_add 0x1000 (1 :: 8 word)
           (concat (replicate 128 [0, 0, 0, 0, 0]) @ concat (replicate 128 [1, 1, 1, 1, 1]))
           (replicate 2 (start 128), zeroed)))
        0x1000 :: 8 word)
     \<noteq> 2 * 128"
proof -
  let ?a = "concat (replicate 128 [0, 0, 0, 0, 0 :: nat])"
  let ?b = "concat (replicate 128 [1, 1, 1, 1, 1 :: nat])"
  let ?ts = "replicate 2 (start 128) :: 8 word thread list"
  let ?r = "run_threads locked_only fetch_add 0x1000 (1 :: 8 word) (?a @ ?b) (?ts, zeroed)"
  have slow: "\<not> IS_LOCK_FREE locked_only (LENGTH(8) div 8)" "\<not> IS_LOCK_FREE locked_only 1"
    by (simp_all add: IS_LOCK_FREE_def locked_only_def)
  have l: "locks zeroed (lock_for_pointer 0x1000) = 0"
    by (simp add: zeroed_def)
  have z: "deref locked_only zeroed 0x1000 = (0 :: 8 word)"
    by (simp add: deref_def zeroed_def locked_only_def from_bytes_def le_word_def read_bytes_def
        addrs_def upt_rec)
  obtain t0 s1 where 1: "run_threads locked_only fetch_add 0x1000 (1 :: 8 word) ?a (?ts, zeroed)
        = (?ts[0 := t0], s1)" "pc t0 = finished" "locks s1 (lock_for_pointer 0x1000) = 0"
    using solo_run_at [OF slow(1) l, of 0 ?ts 128 fetch_add 1]
    by (auto simp: start_def next_call_def numeral_2_eq_2)
  obtain t1 s2 where 2: "run_threads locked_only fetch_add 0x1000 (1 :: 8 word) ?b (?ts[0 := t0], s1)
        = (?ts[0 := t0, 1 := t1], s2)" "pc t1 = finished"
    using solo_run_at [OF slow(1) 1(3), of 1 "?ts[0 := t0]" 128 fetch_add 1]
    by (auto simp: start_def next_call_def numeral_2_eq_2)
  have r: "?r = (?ts[0 := t0, 1 := t1], s2)"
    by (simp only: run_threads_append 1(1) 2(1))
  have f: "list_all (\<lambda>t. pc t = finished) (fst ?r)"
    unfolding r using 1(2) 2(2) by (simp add: numeral_2_eq_2)
  have "(deref locked_only (snd ?r) 0x1000 :: 8 word)
      = deref locked_only zeroed 0x1000 + of_nat (2 * 128)"
    by (rule concurrent_fetch_add_word [where n = 1 and N = 2 and M = 128 and ts' = "fst ?r"
          and sched = "?a @ ?b", OF _ _ slow(2) l _ f])
      simp_all
  then have "(deref locked_only (snd ?r) 0x1000 :: 8 word) = 0"
    by (simp add: z)
  with f z show ?thesis
    by simp
qed

end
